theory Spec2Isabelle
  imports Main "HOL-Library.Sublist" "HOL-Library.Log_Nat"
begin

section \<open>Exceptions of the script\<close>

text \<open>
  Every exception that \<^verbatim>\<open>get_timings.py\<close> can raise between reading the document and
  returning the list of modes aborts the whole run. A function that may raise returns
  \<open>py_error + 'a\<close>, with \<open>Inl\<close> for the exception.
\<close>

datatype py_error =
    IndexError
  | ValueError
  | AssertionError
  | OverflowError
  | ZeroDivisionError
  | TypeError
  | UnboundLocalError

definition bind_err :: "py_error + 'a \<Rightarrow> ('a \<Rightarrow> py_error + 'b) \<Rightarrow> py_error + 'b" where
  "bind_err r f = (case r of Inl e \<Rightarrow> Inl e | Inr v \<Rightarrow> f v)"

definition py_assert :: "bool \<Rightarrow> py_error + unit" where
  "py_assert b = (if b then Inr () else Inl AssertionError)"

section \<open>Python's string operations\<close>

text \<open>
  A Python \<^verbatim>\<open>str\<close> is a \<open>string\<close>; the model covers documents of ASCII characters, for
  which Python's notion of white space is the ten characters below.
\<close>

definition is_space :: "char \<Rightarrow> bool" where
  "is_space c = (c \<in> set [CHR 0x09, CHR 0x0A, CHR 0x0B, CHR 0x0C, CHR 0x0D,
                            CHR 0x1C, CHR 0x1D, CHR 0x1E, CHR 0x1F, CHR '' ''])"

definition is_digit :: "char \<Rightarrow> bool" where
  "is_digit c = (c \<in> set ''0123456789'')"

text \<open>\<^verbatim>\<open>s.strip()\<close>\<close>

definition strip :: "string \<Rightarrow> string" where
  "strip s = rev (dropWhile is_space (rev (dropWhile is_space s)))"

text \<open>
  \<^verbatim>\<open>int(s)\<close> and \<^verbatim>\<open>float(s)\<close> skip, at both ends of an ASCII string, only the six white space
  characters of C (tab, line feed, vertical tab, form feed, carriage return and space).
\<close>

definition is_c_space :: "char \<Rightarrow> bool" where
  "is_c_space c = (c \<in> set [CHR 0x09, CHR 0x0A, CHR 0x0B, CHR 0x0C, CHR 0x0D, CHR '' ''])"

definition strip_c :: "string \<Rightarrow> string" where
  "strip_c s = rev (dropWhile is_c_space (rev (dropWhile is_c_space s)))"

text \<open>\<^verbatim>\<open>s.startswith(p)\<close> and \<^verbatim>\<open>s.endswith(p)\<close>\<close>

definition startswith :: "string \<Rightarrow> string \<Rightarrow> bool" where
  "startswith s p = prefix p s"

definition endswith :: "string \<Rightarrow> string \<Rightarrow> bool" where
  "endswith s p = suffix p s"

text \<open>
  \<open>find_sep sep s\<close> cuts \<open>s\<close> at the leftmost occurrence of the non-empty separator:
  the text before it and the text after it.
\<close>

fun find_sep :: "string \<Rightarrow> string \<Rightarrow> (string \<times> string) option" where
  "find_sep sep [] = None"
| "find_sep sep (c # cs) =
     (if prefix sep (c # cs) then Some ([], drop (length sep) (c # cs))
      else map_option (\<lambda>(a, b). (c # a, b)) (find_sep sep cs))"

text \<open>\<^verbatim>\<open>s.split(sep, n)\<close>: at most \<open>n\<close> cuts, from the left.\<close>

fun split_n :: "string \<Rightarrow> nat \<Rightarrow> string \<Rightarrow> string list" where
  "split_n sep 0 s = [s]"
| "split_n sep (Suc n) s =
     (case find_sep sep s of
        None \<Rightarrow> [s]
      | Some (a, b) \<Rightarrow> a # split_n sep n b)"

text \<open>
  \<^verbatim>\<open>s.split(sep)\<close>: no limit on the cuts; a string has at most as many occurrences of a
  non-empty separator as it has characters.
\<close>

definition split :: "string \<Rightarrow> string \<Rightarrow> string list" where
  "split sep s = split_n sep (length s) s"

text \<open>\<^verbatim>\<open>s.rsplit(sep, n)\<close> and \<^verbatim>\<open>s.rsplit(sep)\<close>: the same cuts, taken from the right.\<close>

definition rsplit_n :: "string \<Rightarrow> nat \<Rightarrow> string \<Rightarrow> string list" where
  "rsplit_n sep n s = rev (map rev (split_n (rev sep) n (rev s)))"

definition rsplit :: "string \<Rightarrow> string \<Rightarrow> string list" where
  "rsplit sep s = rsplit_n sep (length s) s"

text \<open>\<^verbatim>\<open>s.split()\<close>: the maximal runs of characters that are not white space.\<close>

fun split_ws_go :: "string \<Rightarrow> string \<Rightarrow> string list" where
  "split_ws_go acc [] = (if acc = [] then [] else [rev acc])"
| "split_ws_go acc (c # cs) =
     (if is_space c then (if acc = [] then split_ws_go [] cs else rev acc # split_ws_go [] cs)
      else split_ws_go (c # acc) cs)"

definition split_ws :: "string \<Rightarrow> string list" where
  "split_ws s = split_ws_go [] s"

text \<open>\<^verbatim>\<open>s.replace(c, "")\<close> for a one-character \<open>c\<close>.\<close>

definition remove_char :: "char \<Rightarrow> string \<Rightarrow> string" where
  "remove_char c s = filter (\<lambda>d. d \<noteq> c) s"

text \<open>\<^verbatim>\<open>xs[i]\<close> for an index that is not negative.\<close>

definition index :: "'a list \<Rightarrow> nat \<Rightarrow> py_error + 'a" where
  "index xs i = (if i < length xs then Inr (xs ! i) else Inl IndexError)"

subsection \<open>\<^verbatim>\<open>int(s)\<close>\<close>

text \<open>
  \<^verbatim>\<open>int\<close> of a string removes the white space around it, takes an optional sign, and reads
  decimal digits in which single underscores may stand between two digits.
\<close>

definition digit_val :: "char \<Rightarrow> nat" where
  "digit_val c = of_char c - 48"

fun digits_ok :: "bool \<Rightarrow> string \<Rightarrow> bool" where
  "digits_ok prev [] = prev"
| "digits_ok prev (c # cs) =
     (if is_digit c then digits_ok True cs
      else if c = CHR ''_'' then prev \<and> cs \<noteq> [] \<and> is_digit (hd cs) \<and> digits_ok False cs
      else False)"

definition digits_nat :: "string \<Rightarrow> nat" where
  "digits_nat s = foldl (\<lambda>n c. 10 * n + digit_val c) 0 (remove_char CHR ''_'' s)"

definition split_sign :: "string \<Rightarrow> bool \<times> string" where
  "split_sign s =
     (case s of
        c # cs \<Rightarrow> if c = CHR ''-'' then (True, cs) else if c = CHR ''+'' then (False, cs) else (False, s)
      | [] \<Rightarrow> (False, s))"

text \<open>
  The conversion of a decimal string of more than \<^verbatim>\<open>sys.get_int_max_str_digits()\<close> digits
  (4300 by default, underscores not counted) raises \<^verbatim>\<open>ValueError\<close>.
\<close>

definition max_str_digits :: nat where
  "max_str_digits = 4300"

definition py_int :: "string \<Rightarrow> py_error + int" where
  "py_int s =
     (case split_sign (strip_c s) of (neg, ds) \<Rightarrow>
        if digits_ok False ds \<and> length (remove_char CHR ''_'' ds) \<le> max_str_digits
        then Inr (if neg then - int (digits_nat ds) else int (digits_nat ds))
        else Inl ValueError)"

section \<open>Python's floats\<close>

text \<open>
  A Python \<^verbatim>\<open>float\<close> is an IEEE 754 binary64 number: a finite value \<open>m * 2 ^ e\<close>
  (\<open>Finite m e\<close>; the two zeros are one value, which no comparison of the script tells
  apart), an infinity or a NaN. Every operation computes the exact result and rounds it to
  the nearest representable value, ties to the even significand.
\<close>

datatype pyfloat = Finite int int | PInf | NInf | NaN

fun bit_length :: "nat \<Rightarrow> nat" where
  "bit_length n = (if n = 0 then 0 else Suc (bit_length (n div 2)))"

declare bit_length.simps [simp del]

text \<open>
  The exponent \<open>lg\<close> of a positive quotient \<open>n / d\<close>: \<open>2 ^ lg \<le> n / d < 2 ^ (lg + 1)\<close>.
\<close>

definition ilog2 :: "int \<Rightarrow> int \<Rightarrow> int" where
  "ilog2 n d =
     (let k = int (bit_length (nat n)) - int (bit_length (nat d))
      in if (if 0 \<le> k then d * 2 ^ nat k \<le> n else d \<le> n * 2 ^ nat (- k)) then k else k - 1)"

text \<open>\<open>N / D\<close> rounded to the nearest integer, a tie to the even one.\<close>

definition round_half_even :: "int \<Rightarrow> int \<Rightarrow> int" where
  "round_half_even N D =
     (let q = N div D; r = N mod D
      in if 2 * r < D then q else if D < 2 * r then q + 1 else if even q then q else q + 1)"

text \<open>
  Rounding a positive quotient: 53 significant bits for a normal number, multiples of
  \<open>2 ^ -1074\<close> below \<open>2 ^ -1022\<close>, and no finite value from \<open>2 ^ 1024\<close> on.
\<close>

definition round_pos :: "int \<Rightarrow> int \<Rightarrow> (int \<times> int) option" where
  "round_pos n d =
     (let p = max (ilog2 n d) (- 1022) - 52;
          m = (if 0 \<le> p then round_half_even n (d * 2 ^ nat p)
               else round_half_even (n * 2 ^ nat (- p)) d)
      in if 0 \<le> p \<and> 2 ^ 1024 \<le> m * 2 ^ nat p then None else Some (m, p))"

definition round_q :: "int \<Rightarrow> int \<Rightarrow> pyfloat" where
  "round_q n d =
     (if n = 0 then Finite 0 0
      else if 0 < n then (case round_pos n d of Some (m, p) \<Rightarrow> Finite m p | None \<Rightarrow> PInf)
      else (case round_pos (- n) d of Some (m, p) \<Rightarrow> Finite (- m) p | None \<Rightarrow> NInf))"

text \<open>Rounding the exact value \<open>m * 2 ^ e\<close>.\<close>

definition round_dyadic :: "int \<Rightarrow> int \<Rightarrow> pyfloat" where
  "round_dyadic m e = (if 0 \<le> e then round_q (m * 2 ^ nat e) 1 else round_q m (2 ^ nat (- e)))"

text \<open>\<^verbatim>\<open>float(n)\<close> of an \<^verbatim>\<open>int\<close>: an integer too large for a float raises.\<close>

definition float_of_int :: "int \<Rightarrow> py_error + pyfloat" where
  "float_of_int n =
     (case round_q n 1 of Finite m e \<Rightarrow> Inr (Finite m e) | _ \<Rightarrow> Inl OverflowError)"

text \<open>\<^verbatim>\<open>a / b\<close>, \<^verbatim>\<open>a * b\<close>, \<^verbatim>\<open>a - b\<close>, \<^verbatim>\<open>abs(a)\<close>, \<^verbatim>\<open>a < b\<close> and \<^verbatim>\<open>a != b\<close> on floats.\<close>

definition fneg :: "pyfloat \<Rightarrow> pyfloat" where
  "fneg a = (case a of Finite m e \<Rightarrow> Finite (- m) e | PInf \<Rightarrow> NInf | NInf \<Rightarrow> PInf | NaN \<Rightarrow> NaN)"

definition fabs :: "pyfloat \<Rightarrow> pyfloat" where
  "fabs a = (case a of Finite m e \<Rightarrow> Finite \<bar>m\<bar> e | PInf \<Rightarrow> PInf | NInf \<Rightarrow> PInf | NaN \<Rightarrow> NaN)"

fun fmul :: "pyfloat \<Rightarrow> pyfloat \<Rightarrow> pyfloat" where
  "fmul (Finite m1 e1) (Finite m2 e2) = round_dyadic (m1 * m2) (e1 + e2)"
| "fmul NaN _ = NaN"
| "fmul _ NaN = NaN"
| "fmul (Finite m e) b = (if m = 0 then NaN else if 0 < m then b else fneg b)"
| "fmul a (Finite m e) = (if m = 0 then NaN else if 0 < m then a else fneg a)"
| "fmul a b = (if a = b then PInf else NInf)"

fun fsub :: "pyfloat \<Rightarrow> pyfloat \<Rightarrow> pyfloat" where
  "fsub (Finite m1 e1) (Finite m2 e2) =
     (let e = min e1 e2 in round_dyadic (m1 * 2 ^ nat (e1 - e) - m2 * 2 ^ nat (e2 - e)) e)"
| "fsub NaN _ = NaN"
| "fsub _ NaN = NaN"
| "fsub (Finite m e) b = fneg b"
| "fsub a (Finite m e) = a"
| "fsub a b = (if a = b then NaN else a)"

fun fdiv :: "pyfloat \<Rightarrow> pyfloat \<Rightarrow> py_error + pyfloat" where
  "fdiv a (Finite m2 e2) =
     (if m2 = 0 then Inl ZeroDivisionError
      else case a of
        Finite m1 e1 \<Rightarrow>
          Inr (if 0 \<le> e1 - e2 then round_q (sgn m2 * m1 * 2 ^ nat (e1 - e2)) \<bar>m2\<bar>
               else round_q (sgn m2 * m1) (\<bar>m2\<bar> * 2 ^ nat (e2 - e1)))
      | NaN \<Rightarrow> Inr NaN
      | _ \<Rightarrow> Inr (if 0 < m2 then a else fneg a))"
| "fdiv (Finite m e) NaN = Inr NaN"
| "fdiv (Finite m e) _ = Inr (Finite 0 0)"
| "fdiv a b = Inr NaN"

fun flt :: "pyfloat \<Rightarrow> pyfloat \<Rightarrow> bool" where
  "flt (Finite m1 e1) (Finite m2 e2) =
     (let e = min e1 e2 in m1 * 2 ^ nat (e1 - e) < m2 * 2 ^ nat (e2 - e))"
| "flt NaN _ = False"
| "flt _ NaN = False"
| "flt a PInf = (a \<noteq> PInf)"
| "flt NInf b = (b \<noteq> NInf)"
| "flt a b = False"

fun fne :: "pyfloat \<Rightarrow> pyfloat \<Rightarrow> bool" where
  "fne (Finite m1 e1) (Finite m2 e2) =
     (let e = min e1 e2 in m1 * 2 ^ nat (e1 - e) \<noteq> m2 * 2 ^ nat (e2 - e))"
| "fne NaN _ = True"
| "fne _ NaN = True"
| "fne a b = (a \<noteq> b)"

subsection \<open>\<^verbatim>\<open>float(s)\<close>\<close>

text \<open>
  \<^verbatim>\<open>float\<close> of a string removes the white space around it and accepts a sign followed by
  \<^verbatim>\<open>inf\<close>, \<^verbatim>\<open>infinity\<close> or \<^verbatim>\<open>nan\<close> in any case, or by a decimal number: digits, an
  optional point and digits (one of the two digit groups may be missing), an optional
  exponent. An underscore may stand between two digits. The decimal value is rounded to
  the nearest float.
\<close>

definition lower :: "char \<Rightarrow> char" where
  "lower c =
     (case map_of (zip ''ABCDEFGHIJKLMNOPQRSTUVWXYZ'' ''abcdefghijklmnopqrstuvwxyz'') c of
        Some d \<Rightarrow> d
      | None \<Rightarrow> c)"

fun underscores_ok :: "bool \<Rightarrow> string \<Rightarrow> bool" where
  "underscores_ok prev [] = True"
| "underscores_ok prev (c # cs) =
     (if c = CHR ''_'' then prev \<and> cs \<noteq> [] \<and> is_digit (hd cs) \<and> underscores_ok False cs
      else underscores_ok (is_digit c) cs)"

text \<open>The float nearest to \<open>\<plusminus> ds * 10 ^ x\<close> for the digit string \<open>ds\<close>.\<close>

definition decimal :: "bool \<Rightarrow> string \<Rightarrow> int \<Rightarrow> pyfloat" where
  "decimal neg ds x =
     (let D = (if neg then - int (digits_nat ds) else int (digits_nat ds))
      in if 0 \<le> x then round_q (D * 10 ^ nat x) 1 else round_q D (10 ^ nat (- x)))"

definition py_float :: "string \<Rightarrow> py_error + pyfloat" where
  "py_float s =
     (let t = strip_c s in
      if \<not> underscores_ok False t then Inl ValueError
      else case split_sign (remove_char CHR ''_'' t) of (neg, body) \<Rightarrow>
        let lb = map lower body in
        if lb = ''inf'' \<or> lb = ''infinity'' then Inr (if neg then NInf else PInf)
        else if lb = ''nan'' then Inr NaN
        else
          let ip = takeWhile is_digit body;
              r1 = dropWhile is_digit body;
              dot = (r1 \<noteq> [] \<and> hd r1 = CHR ''.'');
              fp = (if dot then takeWhile is_digit (tl r1) else []);
              r2 = (if dot then dropWhile is_digit (tl r1) else r1)
          in if ip = [] \<and> fp = [] then Inl ValueError
             else case r2 of
               [] \<Rightarrow> Inr (decimal neg (ip @ fp) (- int (length fp)))
             | c # ex \<Rightarrow>
                 if c = CHR ''e'' \<or> c = CHR ''E'' then
                   (case split_sign ex of (eneg, ed) \<Rightarrow>
                      if ed \<noteq> [] \<and> list_all is_digit ed
                      then Inr (decimal neg (ip @ fp)
                             ((if eneg then - int (digits_nat ed) else int (digits_nat ed))
                              - int (length fp)))
                      else Inl ValueError)
                 else Inl ValueError)"

section \<open>The line-count table\<close>

definition ln4 :: "int list" where
  "ln4 = [6,7,8,9,10,11,12,13,50,51,58,59]"

definition ln7 :: "int list" where
  "ln7 = [2,3,14,15,35,36,48,49,56,57]"

definition get_ln :: "int \<Rightarrow> int" where
  "get_ln vic = (if vic \<in> set ln4 then 4 else if vic \<in> set ln7 then 7 else 1)"

section \<open>Parsing one entry: \<^verbatim>\<open>parse_mode_string\<close>\<close>

text \<open>The returned dictionary.\<close>

record video_mode =
  vic :: int
  name :: string
  pxl_clk_khz :: int
  hactive :: int
  vactive :: int
  interlaced :: bool
  double_clocked :: bool
  htotal :: int
  hblank :: int
  hfront :: int
  hsync :: int
  hback :: int
  hpol :: int
  vtotal :: int
  vblank :: int
  vfront :: int
  vsync :: int
  vback :: int
  vpol :: int
  ln :: int

text \<open>The local variables set while the comment is parsed (lines 72 to 93).\<close>

record parsed_comment =
  cmnt_cta861_id :: int
  cmnt_name :: string
  cmnt_freq :: string
  cmnt_dbl_clocked :: bool
  cmnt_hres :: int
  cmnt_dbl_hres :: "int option"
  cmnt_interlaced :: bool
  cmnt_vres :: int
  cmnt_aspect_nom :: int
  cmnt_aspect_denom :: int

text \<open>
  The local variables set while the macro parameters are parsed (lines 96 to 109); the
  numeric parameters stay strings, \<^verbatim>\<open>int\<close> is applied where they are used.
\<close>

record parsed_macro =
  mac_name :: string
  mac_type :: string
  mac_clock :: string
  mac_hdisplay :: string
  mac_hsync_start :: string
  mac_hsync_end :: string
  mac_htotal :: string
  mac_hskew :: string
  mac_vdisplay :: string
  mac_vsync_start :: string
  mac_vsync_end :: string
  mac_vtotal :: string
  mac_vscan :: string
  mac_flags :: "string list"
  mac_dbl_clk :: bool
  mac_interlaced :: bool
  mac_hsync_neg :: bool
  mac_vsync_neg :: bool
  mac_name_hres :: int
  mac_name_interlaced :: bool
  mac_name_vres :: int

subsection \<open>Split into 3 parts (lines 67 to 69)\<close>

definition split_comment :: "string \<Rightarrow> py_error + string" where
  "split_comment mode_string =
     bind_err (index (split ''/*'' mode_string) 1) (\<lambda>c.
     Inr (strip (hd (split ''*/'' c))))"

definition split_macro :: "string \<Rightarrow> py_error + string" where
  "split_macro mode_string =
     bind_err (index (split ''*/'' mode_string) 1) (\<lambda>r.
     bind_err (index (split_n ''('' 1 r) 1) (\<lambda>m.
     Inr (strip (hd (rsplit '')'' m)))))"

definition split_aspect :: "string \<Rightarrow> py_error + string" where
  "split_aspect mode_string =
     bind_err (index (split ''.picture_aspect_ratio'' mode_string) 1) (\<lambda>a.
     Inr (strip (hd (split '','' a))))"

subsection \<open>Parse comment (lines 72 to 93)\<close>

definition parse_comment :: "string \<Rightarrow> py_error + parsed_comment" where
  "parse_comment comment =
     bind_err (py_int (strip (hd (split ''-'' comment)))) (\<lambda>cid.
     bind_err (index (split ''-'' comment) 1) (\<lambda>descr.
     let cname = strip (hd (split '' '' (strip descr))) in
     bind_err (index (split ''@'' cname) 1) (\<lambda>rate.
     let freq = strip (hd (split ''Hz'' rate));
         hres_str = hd (split ''x'' cname)
     in
     bind_err
       (if CHR ''('' \<in> set hres_str then
          bind_err (py_int (hd (split ''('' hres_str))) (\<lambda>h.
          bind_err (index (split ''('' hres_str) 1) (\<lambda>d.
          bind_err (py_int (strip (hd (split '')'' d)))) (\<lambda>dh.
          Inr (True, h, Some dh))))
        else bind_err (py_int hres_str) (\<lambda>h. Inr (False, h, None))) (\<lambda>(dbl, hres, dbl_hres).
     bind_err (index (split ''x'' cname) 1) (\<lambda>v.
     let vres_str = strip (hd (split ''@'' v)) in
     bind_err
       (if endswith vres_str ''i''
        then bind_err (py_int (butlast vres_str)) (\<lambda>n. Inr (True, n))
        else bind_err (py_int vres_str) (\<lambda>n. Inr (False, n))) (\<lambda>(il, vres).
     bind_err (index (split '' '' (strip descr)) 1) (\<lambda>ar.
     let aspect_ratio = strip ar in
     bind_err (py_int (strip (hd (split '':'' aspect_ratio)))) (\<lambda>nom.
     bind_err (index (split '':'' aspect_ratio) 1) (\<lambda>den_str.
     bind_err (py_int (strip den_str)) (\<lambda>denom.
     Inr \<lparr> cmnt_cta861_id = cid, cmnt_name = cname, cmnt_freq = freq,
           cmnt_dbl_clocked = dbl, cmnt_hres = hres, cmnt_dbl_hres = dbl_hres,
           cmnt_interlaced = il, cmnt_vres = vres,
           cmnt_aspect_nom = nom, cmnt_aspect_denom = denom \<rparr>))))))))))"

subsection \<open>Parse macro parameters (lines 96 to 109)\<close>

definition parse_macro :: "string \<Rightarrow> py_error + parsed_macro" where
  "parse_macro macro =
     (case split '','' (remove_char CHR '' '' macro) of
        [f0, f1, f2, f3, f4, f5, f6, f7, f8, f9, f10, f11, f12, f13] \<Rightarrow>
          let flags = map strip (split ''|'' f13);
              mname = remove_char CHR 0x22 f0
          in
          bind_err (py_int (hd (split ''x'' mname))) (\<lambda>nh.
          bind_err (index (split ''x'' mname) 1) (\<lambda>v.
          bind_err (py_int (if CHR ''i'' \<in> set mname then butlast v else v)) (\<lambda>nv.
          Inr \<lparr> mac_name = mname, mac_type = f1, mac_clock = f2, mac_hdisplay = f3,
                mac_hsync_start = f4, mac_hsync_end = f5, mac_htotal = f6, mac_hskew = f7,
                mac_vdisplay = f8, mac_vsync_start = f9, mac_vsync_end = f10,
                mac_vtotal = f11, mac_vscan = f12, mac_flags = flags,
                mac_dbl_clk = (''DRM_MODE_FLAG_DBLCLK'' \<in> set flags),
                mac_interlaced = (''DRM_MODE_FLAG_INTERLACE'' \<in> set flags),
                mac_hsync_neg = (''DRM_MODE_FLAG_NHSYNC'' \<in> set flags),
                mac_vsync_neg = (''DRM_MODE_FLAG_NVSYNC'' \<in> set flags),
                mac_name_hres = nh,
                mac_name_interlaced = (CHR ''i'' \<in> set mname),
                mac_name_vres = nv \<rparr>)))
      | _ \<Rightarrow> Inl ValueError)"

subsection \<open>Parse aspect ratio (lines 112 and 113)\<close>

definition parse_aspect :: "string \<Rightarrow> py_error + int \<times> int" where
  "parse_aspect aspect_elmnt =
     bind_err (index (rsplit_n ''_'' 2 aspect_elmnt) 1) (\<lambda>n.
     bind_err (py_int n) (\<lambda>aspect_nom.
     bind_err (index (rsplit_n ''_'' 2 aspect_elmnt) 2) (\<lambda>d.
     bind_err (py_int d) (\<lambda>aspect_denom.
     Inr (aspect_nom, aspect_denom)))))"

subsection \<open>Check for consistency (lines 117 to 136)\<close>

definition flags_avail :: "string list" where
  "flags_avail = [''DRM_MODE_FLAG_DBLCLK'', ''DRM_MODE_FLAG_INTERLACE'',
                  ''DRM_MODE_FLAG_NHSYNC'', ''DRM_MODE_FLAG_NVSYNC'',
                  ''DRM_MODE_FLAG_PHSYNC'', ''DRM_MODE_FLAG_PVSYNC'']"

definition check_consistency ::
  "parsed_comment \<Rightarrow> parsed_macro \<Rightarrow> int \<times> int \<Rightarrow> py_error + unit" where
  "check_consistency c m a =
     bind_err (py_assert (set (mac_flags m) - set flags_avail = {})) (\<lambda>_.
     bind_err (py_assert
       (card ({''DRM_MODE_FLAG_NHSYNC'', ''DRM_MODE_FLAG_PHSYNC''} \<inter> set (mac_flags m)) = 1)) (\<lambda>_.
     bind_err (py_assert
       (card ({''DRM_MODE_FLAG_NVSYNC'', ''DRM_MODE_FLAG_PVSYNC''} \<inter> set (mac_flags m)) = 1)) (\<lambda>_.
     bind_err
       (if mac_interlaced m then
          bind_err (py_assert (mac_name_interlaced m)) (\<lambda>_.
          py_assert (cmnt_interlaced c))
        else Inr ()) (\<lambda>_.
     bind_err
       (if mac_dbl_clk m then
          bind_err (py_assert (cmnt_dbl_clocked c)) (\<lambda>_.
          py_assert (Some (2 * cmnt_hres c) = cmnt_dbl_hres c))
        else Inr ()) (\<lambda>_.
     bind_err (py_int (mac_hdisplay m)) (\<lambda>hdisplay.
     bind_err (py_assert (hdisplay = cmnt_hres c)) (\<lambda>_.
     bind_err (py_assert (mac_name_hres m = cmnt_hres c)) (\<lambda>_.
     bind_err (py_int (mac_vdisplay m)) (\<lambda>vdisplay.
     bind_err (py_assert (vdisplay = cmnt_vres c)) (\<lambda>_.
     bind_err (py_assert (mac_name_vres m = cmnt_vres c)) (\<lambda>_.
     bind_err (py_assert (fst a = cmnt_aspect_nom c)) (\<lambda>_.
     bind_err (py_assert (snd a = cmnt_aspect_denom c)) (\<lambda>_.
     bind_err (py_assert (mac_type m = ''DRM_MODE_TYPE_DRIVER'')) (\<lambda>_.
     bind_err (py_int (mac_hskew m)) (\<lambda>hskew.
     bind_err (py_assert (hskew = 0)) (\<lambda>_.
     bind_err (py_int (mac_vscan m)) (\<lambda>vscan.
     py_assert (vscan = 0))))))))))))))))))"

subsection \<open>The refresh rate (lines 137 to 143)\<close>

text \<open>The literal \<^verbatim>\<open>0.005\<close> and the integer \<^verbatim>\<open>2\<close> as a float.\<close>

definition float_0_005 :: pyfloat where
  "float_0_005 = round_q 5 1000"

definition float_2 :: pyfloat where
  "float_2 = Finite 2 0"

definition fps_calc :: "parsed_macro \<Rightarrow> py_error + pyfloat" where
  "fps_calc m =
     bind_err (py_int (mac_clock m)) (\<lambda>clock.
     bind_err (float_of_int (clock * 1000)) (\<lambda>num.
     bind_err (py_int (mac_vtotal m)) (\<lambda>vt.
     bind_err (py_int (mac_htotal m)) (\<lambda>ht.
     bind_err (float_of_int (vt * ht)) (\<lambda>den.
     bind_err (fdiv num den) (\<lambda>q.
     Inr (if mac_interlaced m then fmul q float_2 else q)))))))"

text \<open>
  The comparison with the rate of the comment: \<open>Inr False\<close> when the two are equal,
  \<open>Inr True\<close> when the warning is printed, the failed assertion otherwise.
\<close>

definition fps_verdict :: "pyfloat \<Rightarrow> pyfloat \<Rightarrow> py_error + bool" where
  "fps_verdict fps freq =
     (if fne fps freq then
        (if flt (fabs (fsub freq fps)) (fmul float_0_005 freq) then Inr True
         else Inl AssertionError)
      else Inr False)"

definition check_fps :: "parsed_comment \<Rightarrow> parsed_macro \<Rightarrow> py_error + bool" where
  "check_fps c m =
     bind_err (fps_calc m) (\<lambda>fps.
     bind_err (py_float (cmnt_freq c)) (\<lambda>freq.
     fps_verdict fps freq))"

subsection \<open>The dictionary (lines 145 to 166)\<close>

definition assemble :: "parsed_comment \<Rightarrow> parsed_macro \<Rightarrow> py_error + video_mode" where
  "assemble c m =
     bind_err (py_int (mac_clock m)) (\<lambda>clock.
     bind_err (py_int (mac_hdisplay m)) (\<lambda>hdisplay.
     bind_err (py_int (mac_vdisplay m)) (\<lambda>vdisplay.
     bind_err (py_int (mac_htotal m)) (\<lambda>htot.
     bind_err (py_int (mac_hsync_start m)) (\<lambda>hsync_start.
     bind_err (py_int (mac_hsync_end m)) (\<lambda>hsync_end.
     bind_err (py_int (mac_vtotal m)) (\<lambda>vtot.
     bind_err (py_int (mac_vsync_start m)) (\<lambda>vsync_start.
     bind_err (py_int (mac_vsync_end m)) (\<lambda>vsync_end.
     Inr \<lparr> vic = cmnt_cta861_id c,
           name = mac_name m @ ''@'' @ cmnt_freq c @ ''Hz'',
           pxl_clk_khz = clock,
           hactive = hdisplay,
           vactive = vdisplay,
           interlaced = mac_interlaced m,
           double_clocked = mac_dbl_clk m,
           htotal = htot,
           hblank = htot - hdisplay,
           hfront = hsync_start - hdisplay,
           hsync = hsync_end - hsync_start,
           hback = htot - hsync_end,
           hpol = (if mac_hsync_neg m then 0 else 1),
           vtotal = vtot,
           vblank = vtot - vdisplay,
           vfront = vsync_start - vdisplay,
           vsync = vsync_end - vsync_start,
           vback = vtot - vsync_end,
           vpol = (if mac_vsync_neg m then 0 else 1),
           ln = get_ln (cmnt_cta861_id c) \<rparr>)))))))))"

subsection \<open>The whole function\<close>

text \<open>
  The three parts of the entry, decoded: everything before the consistency checks.
\<close>

definition decode :: "string \<Rightarrow> py_error + parsed_comment \<times> parsed_macro \<times> int \<times> int" where
  "decode mode_string =
     bind_err (split_comment mode_string) (\<lambda>comment.
     bind_err (split_macro mode_string) (\<lambda>macro.
     bind_err (split_aspect mode_string) (\<lambda>aspect_elmnt.
     bind_err (parse_comment comment) (\<lambda>c.
     bind_err (parse_macro macro) (\<lambda>m.
     bind_err (parse_aspect aspect_elmnt) (\<lambda>a.
     Inr (c, m, a)))))))"

text \<open>
  The result is the dictionary together with the flag that says whether the warning of
  line 141 was printed.
\<close>

definition parse_mode_string :: "string \<Rightarrow> py_error + bool \<times> video_mode" where
  "parse_mode_string mode_string =
     bind_err (decode mode_string) (\<lambda>(c, m, a).
     bind_err (check_consistency c m a) (\<lambda>_.
     bind_err (check_fps c m) (\<lambda>warned.
     bind_err (assemble c m) (\<lambda>mode.
     Inr (warned, mode)))))"

section \<open>Scanning the document: \<^verbatim>\<open>parse_c_file\<close>\<close>

text \<open>
  The local variable \<^verbatim>\<open>mode_string\<close> is unbound until its first assignment, and \<^verbatim>\<open>None\<close>
  after a line that closes an array.
\<close>

datatype mode_str = Unbound | PyNone | Str string

record scan_state =
  current_array :: "string option"
  mode_string :: mode_str
  video_modes :: "video_mode list"

text \<open>The body of the loop, for one line; \<^verbatim>\<open>if current_array:\<close> holds for a non-empty string.\<close>

definition accumulate :: "scan_state \<Rightarrow> string \<Rightarrow> py_error + scan_state" where
  "accumulate st line =
     (case current_array st of
        None \<Rightarrow> Inr st
      | Some arr \<Rightarrow>
          if arr = [] then Inr st
          else
            bind_err
              (if startswith line ''/*'' then Inr line
               else (case mode_string st of
                       Str ms \<Rightarrow> Inr (ms @ line)
                     | PyNone \<Rightarrow> Inl TypeError
                     | Unbound \<Rightarrow> Inl UnboundLocalError)) (\<lambda>ms.
            if endswith line ''},'' then
              bind_err (parse_mode_string ms) (\<lambda>(warned, mode).
              Inr (st\<lparr>mode_string := Str ms, video_modes := video_modes st @ [mode]\<rparr>))
            else Inr (st\<lparr>mode_string := Str ms\<rparr>)))"

definition scan_line :: "string list \<Rightarrow> scan_state \<Rightarrow> string \<Rightarrow> py_error + scan_state" where
  "scan_line arrays_to_include st raw =
     (let line = strip raw in
      if startswith line ''};'' then Inr (st\<lparr>current_array := None, mode_string := PyNone\<rparr>)
      else if startswith line ''static const struct drm_display_mode'' then
        bind_err (index (split_ws line) 4) (\<lambda>w.
        let array_name = strip (hd (split ''['' w)) in
        if array_name \<in> set arrays_to_include
        then Inr (st\<lparr>current_array := Some array_name\<rparr>)
        else accumulate st line)
      else accumulate st line)"

fun scan_lines :: "string list \<Rightarrow> scan_state \<Rightarrow> string list \<Rightarrow> py_error + scan_state" where
  "scan_lines arrays_to_include st [] = Inr st"
| "scan_lines arrays_to_include st (l # ls) =
     bind_err (scan_line arrays_to_include st l) (\<lambda>st'. scan_lines arrays_to_include st' ls)"

definition initial_state :: scan_state where
  "initial_state = \<lparr> current_array = None, mode_string = Unbound, video_modes = [] \<rparr>"

definition parse_c_file :: "string \<Rightarrow> string list \<Rightarrow> py_error + video_mode list" where
  "parse_c_file file_content arrays_to_include =
     bind_err (scan_lines arrays_to_include initial_state (split [CHR 0x0A] file_content)) (\<lambda>st.
     Inr (video_modes st))"

definition arrays_to_include :: "string list" where
  "arrays_to_include = [''edid_cea_modes_1'', ''edid_cea_modes_193'']"

section \<open>Documents used as examples\<close>

text \<open>\<^verbatim>\<open>"\n".join(lines)\<close>\<close>

fun join_lines :: "string list \<Rightarrow> string" where
  "join_lines [] = []"
| "join_lines [l] = l"
| "join_lines (l # ls) = l @ CHR 0x0A # join_lines ls"

text \<open>
  The entry of mode 16 as it stands in \<^verbatim>\<open>drm_edid.c\<close>, inside the first of the two arrays.
\<close>

definition array_open :: string where
  "array_open = ''static const struct drm_display_mode edid_cea_modes_1[] = {''"

definition entry_16 :: "string list" where
  "entry_16 =
    [''    /* 16 - 1920x1080@60Hz 16:9 */'',
     ''    { DRM_MODE('' @ [CHR 0x22] @ ''1920x1080'' @ [CHR 0x22] @
       '', DRM_MODE_TYPE_DRIVER, 148500, 1920, 2008,'',
     ''           2052, 2200, 0, 1080, 1084, 1089, 1125, 0,'',
     ''           DRM_MODE_FLAG_PHSYNC | DRM_MODE_FLAG_PVSYNC),'',
     ''      .picture_aspect_ratio = HDMI_PICTURE_ASPECT_16_9, },'']"

definition example_document :: string where
  "example_document = join_lines (array_open # entry_16 @ [''};''])"

definition mode_16 :: video_mode where
  "mode_16 =
     \<lparr> vic = 16, name = ''1920x1080@60Hz'', pxl_clk_khz = 148500,
       hactive = 1920, vactive = 1080, interlaced = False, double_clocked = False,
       htotal = 2200, hblank = 280, hfront = 88, hsync = 44, hback = 148, hpol = 1,
       vtotal = 1125, vblank = 45, vfront = 4, vsync = 5, vback = 36, vpol = 1, ln = 1 \<rparr>"

text \<open>
  Entries in one line, built from the comment, the name of the mode, the eleven numbers
  and the flags.
\<close>

definition entry_text :: "string \<Rightarrow> string \<Rightarrow> string \<Rightarrow> string \<Rightarrow> string" where
  "entry_text cmt mname nums flags =
     ''/* '' @ cmt @ '' */ { DRM_MODE('' @ [CHR 0x22] @ mname @ [CHR 0x22] @
     '', DRM_MODE_TYPE_DRIVER, '' @ nums @ '', '' @ flags @
     ''), .picture_aspect_ratio = HDMI_PICTURE_ASPECT_16_9, },''"

text \<open>Mode 16 with the interlace flag in place of the vertical polarity flag.\<close>

definition entry_bad_flags :: string where
  "entry_bad_flags = entry_text ''16 - 1920x1080@60Hz 16:9'' ''1920x1080''
     ''148500, 1920, 2008, 2052, 2200, 0, 1080, 1084, 1089, 1125, 0''
     ''DRM_MODE_FLAG_PHSYNC | DRM_MODE_FLAG_INTERLACE''"

text \<open>Mode 16 with a horizontal sync that starts at 1900, before the end of the 1920 active pixels.\<close>

definition entry_negative_porch :: string where
  "entry_negative_porch = entry_text ''16 - 1920x1080@60Hz 16:9'' ''1920x1080''
     ''148500, 1920, 1900, 2052, 2200, 0, 1080, 1084, 1089, 1125, 0''
     ''DRM_MODE_FLAG_PHSYNC | DRM_MODE_FLAG_PVSYNC''"

text \<open>An entry whose comment and name say \<^verbatim>\<open>1080i\<close> and whose flags have no interlace flag.\<close>

definition entry_unflagged_interlace :: string where
  "entry_unflagged_interlace = entry_text ''5 - 1920x1080i@60Hz 16:9'' ''1920x1080i''
     ''148500, 1920, 2008, 2052, 2200, 0, 1080, 1084, 1089, 1125, 0''
     ''DRM_MODE_FLAG_PHSYNC | DRM_MODE_FLAG_PVSYNC''"

definition comment_16 :: parsed_comment where
  "comment_16 =
     \<lparr> cmnt_cta861_id = 16, cmnt_name = ''1920x1080@60Hz'', cmnt_freq = ''60'',
       cmnt_dbl_clocked = False, cmnt_hres = 1920, cmnt_dbl_hres = None,
       cmnt_interlaced = False, cmnt_vres = 1080,
       cmnt_aspect_nom = 16, cmnt_aspect_denom = 9 \<rparr>"

definition macro_16 :: parsed_macro where
  "macro_16 =
     \<lparr> mac_name = ''1920x1080'', mac_type = ''DRM_MODE_TYPE_DRIVER'',
       mac_clock = ''148500'', mac_hdisplay = ''1920'', mac_hsync_start = ''2008'',
       mac_hsync_end = ''2052'', mac_htotal = ''2200'', mac_hskew = ''0'',
       mac_vdisplay = ''1080'', mac_vsync_start = ''1084'', mac_vsync_end = ''1089'',
       mac_vtotal = ''1125'', mac_vscan = ''0'',
       mac_flags = [''DRM_MODE_FLAG_PHSYNC'', ''DRM_MODE_FLAG_PVSYNC''],
       mac_dbl_clk = False, mac_interlaced = False, mac_hsync_neg = False,
       mac_vsync_neg = False, mac_name_hres = 1920, mac_name_interlaced = False,
       mac_name_vres = 1080 \<rparr>"

definition macro_bad_flags :: parsed_macro where
  "macro_bad_flags =
     macro_16\<lparr> mac_flags := [''DRM_MODE_FLAG_PHSYNC'', ''DRM_MODE_FLAG_INTERLACE''],
               mac_interlaced := True \<rparr>"

definition comment_5i :: parsed_comment where
  "comment_5i =
     comment_16\<lparr> cmnt_cta861_id := 5, cmnt_name := ''1920x1080i@60Hz'',
                 cmnt_interlaced := True \<rparr>"

definition macro_5i :: parsed_macro where
  "macro_5i = macro_16\<lparr> mac_name := ''1920x1080i'', mac_name_interlaced := True \<rparr>"

definition mode_5i :: video_mode where
  "mode_5i = mode_16\<lparr> vic := 5, name := ''1920x1080i@60Hz'' \<rparr>"

definition mode_negative_porch :: video_mode where
  "mode_negative_porch = mode_16\<lparr> hfront := - 20, hsync := 152 \<rparr>"


text \<open>
  The example document cut off inside the comment of a second entry, and the state of the
  scan before that last line.
\<close>

definition truncated_document :: string where
  "truncated_document = join_lines ((array_open # entry_16) @ [''    /* 17 - 720x576@50Hz''])"

definition state_after_16 :: scan_state where
  "state_after_16 =
     \<lparr> current_array = Some ''edid_cea_modes_1'',
       mode_string = Str (concat (map strip entry_16)),
       video_modes = [mode_16] \<rparr>"

text \<open>The example document with the entry of mode 16 twice.\<close>

definition duplicate_document :: string where
  "duplicate_document = join_lines (array_open # entry_16 @ entry_16 @ [''};''])"

text \<open>
  Mode 16 in one line, and two entries that state 1000 Hz: with the clock 2484900 kHz the
  computed rate is 1004 Hz, 0.4% above the stated one, and with 2489850 kHz it is 1006 Hz,
  0.6% above.
\<close>

definition entry_rate_60 :: string where
  "entry_rate_60 = entry_text ''16 - 1920x1080@60Hz 16:9'' ''1920x1080''
     ''148500, 1920, 2008, 2052, 2200, 0, 1080, 1084, 1089, 1125, 0''
     ''DRM_MODE_FLAG_PHSYNC | DRM_MODE_FLAG_PVSYNC''"

definition entry_rate_1004 :: string where
  "entry_rate_1004 = entry_text ''16 - 1920x1080@1000Hz 16:9'' ''1920x1080''
     ''2484900, 1920, 2008, 2052, 2200, 0, 1080, 1084, 1089, 1125, 0''
     ''DRM_MODE_FLAG_PHSYNC | DRM_MODE_FLAG_PVSYNC''"

definition entry_rate_1006 :: string where
  "entry_rate_1006 = entry_text ''16 - 1920x1080@1000Hz 16:9'' ''1920x1080''
     ''2489850, 1920, 2008, 2052, 2200, 0, 1080, 1084, 1089, 1125, 0''
     ''DRM_MODE_FLAG_PHSYNC | DRM_MODE_FLAG_PVSYNC''"

definition comment_1000 :: parsed_comment where
  "comment_1000 = comment_16\<lparr> cmnt_name := ''1920x1080@1000Hz'', cmnt_freq := ''1000'' \<rparr>"

definition macro_1004 :: parsed_macro where
  "macro_1004 = macro_16\<lparr> mac_clock := ''2484900'' \<rparr>"

definition macro_1006 :: parsed_macro where
  "macro_1006 = macro_16\<lparr> mac_clock := ''2489850'' \<rparr>"

definition mode_1004 :: video_mode where
  "mode_1004 = mode_16\<lparr> name := ''1920x1080@1000Hz'', pxl_clk_khz := 2484900 \<rparr>"

section \<open>The value of a float\<close>

text \<open>The rational number that a finite float stands for.\<close>

definition fval :: "pyfloat \<Rightarrow> rat" where
  "fval a = (case a of Finite m e \<Rightarrow> of_int m * 2 powi e | _ \<Rightarrow> 0)"

text \<open>The significand and the exponent that \<open>round_pos\<close> chooses.\<close>

definition rexp :: "int \<Rightarrow> int \<Rightarrow> int" where
  "rexp n d = max (ilog2 n d) (- 1022) - 52"

definition rsig :: "int \<Rightarrow> int \<Rightarrow> int" where
  "rsig n d = (if 0 \<le> rexp n d then round_half_even n (d * 2 ^ nat (rexp n d))
               else round_half_even (n * 2 ^ nat (- rexp n d)) d)"

section \<open>Auxiliary functions for evaluating the model\<close>

text \<open>
  Equivalent forms of the list functions whose equations rewrite a long string in a
  number of steps linear in its length.
\<close>

definition sel :: "bool \<Rightarrow> 'a \<Rightarrow> 'a \<Rightarrow> 'a" where
  "sel b x y = (if b then x else y)"

fun rev_onto :: "'a list \<Rightarrow> 'a list \<Rightarrow> 'a list" where
  "rev_onto [] acc = acc"
| "rev_onto (x # xs) acc = rev_onto xs (x # acc)"

fun dw_step :: "bool \<Rightarrow> ('a \<Rightarrow> bool) \<Rightarrow> 'a \<Rightarrow> 'a list \<Rightarrow> 'a list" where
  "dw_step True P x xs = dropWhile P xs"
| "dw_step False P x xs = x # xs"

fun strip_prefix :: "string \<Rightarrow> string \<Rightarrow> string option" where
  "strip_prefix [] s = Some s"
| "strip_prefix (x # xs) [] = None"
| "strip_prefix (x # xs) (c # cs) = sel (x = c) (strip_prefix xs cs) None"

fun fs_step ::
  "string option \<Rightarrow> char \<Rightarrow> (string \<times> string) option \<Rightarrow> (string \<times> string) option" where
  "fs_step (Some r) c rec = Some ([], r)"
| "fs_step None c None = None"
| "fs_step None c (Some (a, b)) = Some (c # a, b)"

section \<open>Basic facts\<close>

lemma bind_err_Inl: "bind_err (Inl e) f = Inl e"
  by (simp add: bind_err_def)
lemma bind_err_Inr: "bind_err (Inr v) f = f v"
  by (simp add: bind_err_def)
lemma bind_err_cong: "r = r' \<Longrightarrow> bind_err r f = bind_err r' f"
  by simp

lemma find_sep_length: "find_sep sep s = Some (a, b) \<Longrightarrow> sep \<noteq> [] \<Longrightarrow> length b < length s"
proof (induction s arbitrary: a b)
  case Nil
  then show ?case by simp
next
  case (Cons c cs)
  show ?case
  proof (cases "prefix sep (c # cs)")
    case True
    with Cons.prems show ?thesis by (cases sep) auto
  next
    case False
    with Cons.prems obtain a' where "find_sep sep cs = Some (a', b)"
      by (auto split: if_splits)
    from Cons.IH[OF this Cons.prems(2)] show ?thesis by simp
  qed
qed

lemma split_n_fuel:
  "sep \<noteq> [] \<Longrightarrow> length s \<le> n \<Longrightarrow> length s \<le> m \<Longrightarrow> split_n sep n s = split_n sep m s"
proof (induction n arbitrary: m s)
  case 0
  then show ?case by (cases m) auto
next
  case (Suc n)
  show ?case
  proof (cases m)
    case 0
    with Suc.prems show ?thesis by auto
  next
    case (Suc m')
    show ?thesis
    proof (cases "find_sep sep s")
      case None
      then show ?thesis using Suc by simp
    next
      case (Some ab)
      obtain a b where ab: "ab = (a, b)" by (cases ab)
      from find_sep_length[of sep s a b] Some ab Suc.prems(1)
      have "length b < length s" by simp
      with Suc.prems \<open>m = Suc m'\<close> have "length b \<le> n" "length b \<le> m'" by auto
      from Suc.IH[OF Suc.prems(1) this] Some ab \<open>m = Suc m'\<close> show ?thesis by simp
    qed
  qed
qed

lemma split_unfold:
  "split (c # cs) s =
     (case find_sep (c # cs) s of None \<Rightarrow> [s] | Some (a, b) \<Rightarrow> a # split (c # cs) b)"
proof (cases s)
  case Nil
  then show ?thesis by (simp add: split_def)
next
  case (Cons x xs)
  show ?thesis
  proof (cases "find_sep (c # cs) s")
    case None
    then show ?thesis using Cons by (simp add: split_def)
  next
    case (Some ab)
    obtain a b where ab: "ab = (a, b)" by (cases ab)
    from find_sep_length[of "c # cs" s a b] Some ab have "length b < length s" by simp
    then have "split_n (c # cs) (length xs) b = split_n (c # cs) (length b) b"
      using Cons by (intro split_n_fuel) auto
    then show ?thesis using Cons Some ab by (simp add: split_def)
  qed
qed


lemma rev_onto_eq: "rev_onto xs acc = rev xs @ acc"
  by (induction xs arbitrary: acc) auto

lemma rev_eval: "rev xs = rev_onto xs []"
  by (simp add: rev_onto_eq)


lemma sel_simps: "sel True x y = x" "sel False x y = y"
  by (simp_all add: sel_def)

lemma filter_sel: "filter P (x # xs) = sel (P x) [x] [] @ filter P xs"
  by (simp add: sel_def)

lemma dropWhile_sel: "dropWhile P (x # xs) = dw_step (P x) P x xs"
  by (cases "P x") simp_all

lemma takeWhile_sel: "takeWhile P (x # xs) = sel (P x) (x # takeWhile P xs) []"
  by (simp add: sel_def)


lemma strip_prefix_eq:
  "strip_prefix sep s = (if prefix sep s then Some (drop (length sep) s) else None)"
  by (induction sep s rule: strip_prefix.induct) (auto simp: sel_def)

lemma find_sep_sel:
  "find_sep sep (c # cs) = fs_step (strip_prefix sep (c # cs)) c (find_sep sep cs)"
  by (cases "find_sep sep cs") (auto simp: strip_prefix_eq)

lemma split_n_numeral: "split_n sep (numeral k) s =
     (case find_sep sep s of None \<Rightarrow> [s] | Some (a, b) \<Rightarrow> a # split_n sep (pred_numeral k) b)"
  by (simp add: numeral_eq_Suc)

lemma rsplit_eval: "rsplit sep s = rev (map rev (split (rev sep) (rev s)))"
  by (simp add: rsplit_def rsplit_n_def split_def)


lemmas eval_rules =
  bind_err_Inl bind_err_Inr py_assert_def sel_simps
  rev_eval filter_sel dropWhile_sel takeWhile_sel find_sep_sel split_unfold split_n_numeral
  rsplit_eval rsplit_n_def
  strip_def is_space_def strip_c_def is_c_space_def max_str_digits_def is_digit_def digits_nat_def
  digit_val_def remove_char_def split_sign_def
  index_def startswith_def endswith_def suffix_to_prefix split_ws_def py_int_def Let_def
  float_of_int_def round_q_def round_dyadic_def round_pos_def ilog2_def
  round_half_even_def bit_length.simps float_0_005_def float_2_def py_float_def decimal_def lower_def

lemmas eval_dels = find_sep.simps(2) filter.simps(2) dropWhile.simps(2) takeWhile.simps(2) rev.simps

lemmas model_defs =
  decode_def split_comment_def split_macro_def split_aspect_def
  parse_comment_def parse_macro_def parse_aspect_def parse_mode_string_def check_consistency_def
  check_fps_def fps_calc_def fps_verdict_def assemble_def flags_avail_def get_ln_def ln4_def ln7_def

lemmas scan_defs =
  parse_c_file_def scan_line_def accumulate_def initial_state_def arrays_to_include_def

lemma join_lines_Cons: "join_lines (l # l' # ls) = l @ CHR 0x0A # join_lines (l' # ls)"
  by simp

lemma example_document_parse:
  "parse_c_file example_document arrays_to_include = Inr [mode_16]"
  by (simp add: example_document_def array_open_def entry_16_def mode_16_def
        model_defs scan_defs eval_rules
      del: eval_dels cong: bind_err_cong let_weak_cong prod.case_cong_weak)

section \<open>How a record comes to be accepted\<close>

lemma bind_err_Inr_iff: "(bind_err r f = Inr y) = (\<exists>v. r = Inr v \<and> f v = Inr y)"
  by (cases r) (simp_all add: bind_err_def)

lemma py_assert_Inr_iff: "(py_assert b = Inr u) = b"
  by (simp add: py_assert_def)

lemma assemble_totals:
  assumes "assemble c m = Inr md"
  shows "htotal md = hactive md + hfront md + hsync md + hback md"
    and "vtotal md = vactive md + vfront md + vsync md + vback md"
  using assms by (auto simp: assemble_def bind_err_Inr_iff)

lemma parse_mode_string_stages:
  assumes "parse_mode_string s = Inr (w, md)"
  shows "\<exists>c m a. decode s = Inr (c, m, a) \<and> check_consistency c m a = Inr ()
           \<and> check_fps c m = Inr w \<and> assemble c m = Inr md"
  using assms by (auto simp: parse_mode_string_def bind_err_Inr_iff)

lemma accumulate_modes:
  assumes "accumulate st l = Inr st'"
  shows "video_modes st' = video_modes st
         \<or> (\<exists>ms w md. parse_mode_string ms = Inr (w, md) \<and> video_modes st' = video_modes st @ [md])"
  using assms
  by (auto simp: accumulate_def bind_err_Inr_iff split: option.splits if_splits)

lemma scan_line_modes:
  assumes "scan_line arrs st l = Inr st'"
  shows "video_modes st' = video_modes st
         \<or> (\<exists>ms w md. parse_mode_string ms = Inr (w, md) \<and> video_modes st' = video_modes st @ [md])"
  using assms accumulate_modes
  by (auto simp: scan_line_def Let_def bind_err_Inr_iff split: if_splits)

lemma scan_lines_invariant:
  assumes P: "\<And>ms w md. parse_mode_string ms = Inr (w, md) \<Longrightarrow> P md"
  shows "scan_lines arrs st ls = Inr st' \<Longrightarrow> list_all P (video_modes st)
         \<Longrightarrow> list_all P (video_modes st')"
proof (induction ls arbitrary: st)
  case Nil
  then show ?case by simp
next
  case (Cons l ls)
  from Cons.prems(1) obtain st1 where
    st1: "scan_line arrs st l = Inr st1" and rest: "scan_lines arrs st1 ls = Inr st'"
    by (auto simp: bind_err_Inr_iff)
  from scan_line_modes[OF st1] Cons.prems(2) P have "list_all P (video_modes st1)"
    by auto
  with Cons.IH[OF rest] show ?case .
qed

lemma parse_c_file_invariant:
  assumes P: "\<And>ms w md. parse_mode_string ms = Inr (w, md) \<Longrightarrow> P md"
    and "parse_c_file doc arrs = Inr rs"
  shows "list_all P rs"
proof -
  from assms(2) obtain st where
    "scan_lines arrs initial_state (split [CHR 0x0A] doc) = Inr st" and "rs = video_modes st"
    by (auto simp: parse_c_file_def bind_err_Inr_iff)
  with scan_lines_invariant[of P arrs initial_state _ st, OF P] show ?thesis
    by (simp add: initial_state_def)
qed

section \<open>The example entries, evaluated\<close>

lemmas example_defs =
  entry_text_def entry_bad_flags_def entry_negative_porch_def entry_unflagged_interlace_def
  comment_16_def macro_16_def macro_bad_flags_def comment_5i_def macro_5i_def mode_5i_def
  mode_negative_porch_def mode_16_def

lemma decode_bad_flags: "decode entry_bad_flags = Inr (comment_16, macro_bad_flags, (16, 9))"
  by (simp add: example_defs model_defs eval_rules
      del: eval_dels cong: bind_err_cong let_weak_cong prod.case_cong_weak)

lemma decode_unflagged_interlace:
  "decode entry_unflagged_interlace = Inr (comment_5i, macro_5i, (16, 9))"
  by (simp add: example_defs model_defs eval_rules
      del: eval_dels cong: bind_err_cong let_weak_cong prod.case_cong_weak)

lemma parse_unflagged_interlace:
  "parse_mode_string entry_unflagged_interlace = Inr (False, mode_5i)"
  by (simp add: example_defs model_defs eval_rules
      del: eval_dels cong: bind_err_cong let_weak_cong prod.case_cong_weak)

lemma parse_negative_porch:
  "parse_mode_string entry_negative_porch = Inr (False, mode_negative_porch)"
  by (simp add: example_defs model_defs eval_rules
      del: eval_dels cong: bind_err_cong let_weak_cong prod.case_cong_weak)

section \<open>The consistency checks\<close>

lemma card_two_inter: "a \<noteq> b \<Longrightarrow> (card ({a, b} \<inter> S) = 1) = ((a \<in> S) \<noteq> (b \<in> S))"
  by (cases "a \<in> S"; cases "b \<in> S") (simp_all add: Int_insert_left)

lemma check_consistency_polarity:
  assumes "\<not> (card ({''DRM_MODE_FLAG_NHSYNC'', ''DRM_MODE_FLAG_PHSYNC''} \<inter> set (mac_flags m)) = 1
            \<and> card ({''DRM_MODE_FLAG_NVSYNC'', ''DRM_MODE_FLAG_PVSYNC''} \<inter> set (mac_flags m)) = 1)"
  shows "check_consistency c m a = Inl AssertionError"
  using assms by (auto simp: check_consistency_def bind_err_def py_assert_def)

lemma check_consistency_interlace:
  assumes "mac_interlaced m" and "\<not> (mac_name_interlaced m \<and> cmnt_interlaced c)"
  shows "check_consistency c m a = Inl AssertionError"
  using assms by (auto simp: check_consistency_def bind_err_def py_assert_def)

lemma parse_mode_string_check_error:
  assumes "decode s = Inr (c, m, a)" and "check_consistency c m a = Inl e"
  shows "parse_mode_string s = Inl e"
  using assms by (simp add: parse_mode_string_def bind_err_def)

section \<open>Cutting at one character\<close>

lemma find_sep_char:
  "find_sep [c] s =
     (if c \<in> set s then Some (takeWhile (\<lambda>x. x \<noteq> c) s, tl (dropWhile (\<lambda>x. x \<noteq> c) s))
      else None)"
  by (induction s) auto

lemma find_sep_char_append: "c \<notin> set a \<Longrightarrow> find_sep [c] (a @ c # x) = Some (a, x)"
  by (induction a) auto

lemma takeWhile_until: "c \<notin> set b \<Longrightarrow> takeWhile (\<lambda>x. x \<noteq> c) (b @ c # r) = b"
  by (induction b) auto

lemma split_nonempty: "split (c # cs) s \<noteq> []"
  by (subst split_unfold) (auto split: option.splits)

lemma split_char_absent: "c \<notin> set s \<Longrightarrow> split [c] s = [s]"
  by (subst split_unfold) (simp add: find_sep_char)

lemma split_char_append: "c \<notin> set a \<Longrightarrow> split [c] (a @ c # x) = a # split [c] x"
  by (subst split_unfold) (simp add: find_sep_char_append)

lemma last_split_char: "last (split [c] s) = rev (takeWhile (\<lambda>x. x \<noteq> c) (rev s))"
proof (induction "length s" arbitrary: s rule: less_induct)
  case less
  show ?case
  proof (cases "c \<in> set s")
    case False
    then have tw: "takeWhile (\<lambda>x. x \<noteq> c) (rev s) = rev s"
      by (auto simp: takeWhile_eq_all_conv)
    show ?thesis
      unfolding tw using False by (simp add: split_char_absent)
  next
    case True
    define a where "a = takeWhile (\<lambda>x. x \<noteq> c) s"
    define b where "b = tl (dropWhile (\<lambda>x. x \<noteq> c) s)"
    from True have "dropWhile (\<lambda>x. x \<noteq> c) s \<noteq> []" by simp
    moreover from this have "hd (dropWhile (\<lambda>x. x \<noteq> c) s) = c"
      using hd_dropWhile[of "\<lambda>x. x \<noteq> c" s] by simp
    ultimately have "dropWhile (\<lambda>x. x \<noteq> c) s = c # b"
      unfolding b_def by (cases "dropWhile (\<lambda>x. x \<noteq> c) s") auto
    then have s: "s = a @ c # b"
      unfolding a_def using takeWhile_dropWhile_id[of "\<lambda>x. x \<noteq> c" s] by simp
    have ca: "c \<notin> set a"
      unfolding a_def by (auto dest: set_takeWhileD)
    have "last (split [c] s) = last (split [c] b)"
      using ca by (simp add: s split_char_append split_nonempty)
    also have "\<dots> = rev (takeWhile (\<lambda>x. x \<noteq> c) (rev b))"
      by (rule less) (simp add: s)
    also have "takeWhile (\<lambda>x. x \<noteq> c) (rev b) = takeWhile (\<lambda>x. x \<noteq> c) (rev s)"
      by (simp add: s takeWhile_append)
    finally show ?thesis .
  qed
qed

lemma hd_rsplit_char: "hd (rsplit [c] s) = takeWhile (\<lambda>x. x \<noteq> c) s"
proof -
  have "hd (rsplit [c] s) = rev (last (split [c] (rev s)))"
    by (simp add: rsplit_eval hd_rev last_map split_nonempty)
  then show ?thesis by (simp add: last_split_char)
qed

lemma split_join_lines:
  "ls \<noteq> [] \<Longrightarrow> \<forall>l\<in>set ls. CHR 0x0A \<notin> set l \<Longrightarrow> split [CHR 0x0A] (join_lines ls) = ls"
proof (induction ls rule: join_lines.induct)
  case 1
  then show ?case by simp
next
  case (2 l)
  then show ?case by (simp add: split_char_absent)
next
  case (3 l l' ls)
  then show ?case by (simp add: split_char_append)
qed

section \<open>The scan, line by line\<close>

lemma bind_err_assoc: "bind_err (bind_err r f) g = bind_err r (\<lambda>x. bind_err (f x) g)"
  by (cases r) (simp_all add: bind_err_def)

lemma scan_lines_append:
  "scan_lines arrs st (xs @ ys) = bind_err (scan_lines arrs st xs) (\<lambda>st'. scan_lines arrs st' ys)"
  by (induction xs arbitrary: st) (simp_all add: bind_err_Inr bind_err_assoc)

text \<open>
  A line of a pending block: stripped, it neither closes an array nor declares one, and it
  does not end an entry.
\<close>

lemma scan_pending_line:
  assumes "current_array st = Some arr" and "arr \<noteq> []"
    and "startswith (strip l) ''/*'' \<or> (\<exists>ms. mode_string st = Str ms)"
    and "\<not> startswith (strip l) ''};''"
    and "\<not> startswith (strip l) ''static const struct drm_display_mode''"
    and "\<not> endswith (strip l) ''},''"
  shows "\<exists>st'. scan_line arrs st l = Inr st' \<and> current_array st' = Some arr
           \<and> (\<exists>ms. mode_string st' = Str ms) \<and> video_modes st' = video_modes st"
  using assms by (auto simp: scan_line_def accumulate_def bind_err_def Let_def)

lemma scan_pending_lines:
  assumes "current_array st = Some arr" and "arr \<noteq> []"
    and "\<exists>ms. mode_string st = Str ms"
    and "\<forall>l\<in>set ls. \<not> startswith (strip l) ''};''
           \<and> \<not> startswith (strip l) ''static const struct drm_display_mode''
           \<and> \<not> endswith (strip l) ''},''"
  shows "\<exists>st'. scan_lines arrs st ls = Inr st' \<and> video_modes st' = video_modes st"
  using assms
proof (induction ls arbitrary: st)
  case Nil
  then show ?case by simp
next
  case (Cons l ls)
  from scan_pending_line[of st arr l arrs] Cons.prems obtain st1 where
    st1: "scan_line arrs st l = Inr st1" "current_array st1 = Some arr"
      "\<exists>ms. mode_string st1 = Str ms" "video_modes st1 = video_modes st"
    by auto
  from Cons.IH[OF st1(2) Cons.prems(2) st1(3)] Cons.prems(4) obtain st' where
    "scan_lines arrs st1 ls = Inr st'" "video_modes st' = video_modes st1"
    by auto
  with st1 show ?case by (simp add: bind_err_Inr)
qed

lemma comment_line_plain:
  assumes "startswith t ''/*''"
  shows "\<not> startswith t ''};''" and "\<not> startswith t ''static const struct drm_display_mode''"
  using assms by (auto simp: startswith_def prefix_def)


lemma scan_example_open:
  "scan_lines arrays_to_include initial_state (array_open # entry_16) = Inr state_after_16"
  by (simp add: state_after_16_def array_open_def entry_16_def mode_16_def
        model_defs scan_defs eval_rules
      del: eval_dels cong: bind_err_cong let_weak_cong prod.case_cong_weak)

lemma truncated_document_parse:
  "parse_c_file truncated_document arrays_to_include = Inr [mode_16]"
  by (simp add: truncated_document_def array_open_def entry_16_def mode_16_def
        model_defs scan_defs eval_rules
      del: eval_dels cong: bind_err_cong let_weak_cong prod.case_cong_weak)

lemma duplicate_document_parse:
  "parse_c_file duplicate_document arrays_to_include = Inr [mode_16, mode_16]"
  by (simp add: duplicate_document_def array_open_def entry_16_def mode_16_def
        model_defs scan_defs eval_rules
      del: eval_dels cong: bind_err_cong let_weak_cong prod.case_cong_weak)

text \<open>
  The lines of an entry block inside an open array: the line that opens the comment starts
  the block, every further line is appended to it, and the line that ends the entry has the
  block parsed and its record appended.
\<close>

lemma scan_open_line:
  assumes "current_array st = Some arr" and "arr \<noteq> []"
    and "startswith (strip l) ''/*''" and "\<not> endswith (strip l) ''},''"
  shows "scan_line arrs st l = Inr (st\<lparr>mode_string := Str (strip l)\<rparr>)"
  using assms comment_line_plain[OF assms(3)]
  by (simp add: scan_line_def accumulate_def bind_err_def Let_def)

lemma scan_continuation_line:
  assumes "current_array st = Some arr" and "arr \<noteq> []"
    and "mode_string st = Str ms"
    and "\<not> startswith (strip l) ''};''"
    and "\<not> startswith (strip l) ''static const struct drm_display_mode''"
    and "\<not> startswith (strip l) ''/*''"
    and "\<not> endswith (strip l) ''},''"
  shows "scan_line arrs st l = Inr (st\<lparr>mode_string := Str (ms @ strip l)\<rparr>)"
  using assms by (simp add: scan_line_def accumulate_def bind_err_def Let_def)

lemma scan_continuation_lines:
  assumes "current_array st = Some arr" and "arr \<noteq> []"
    and "mode_string st = Str ms"
    and "\<forall>l\<in>set ls. \<not> startswith (strip l) ''};''
           \<and> \<not> startswith (strip l) ''static const struct drm_display_mode''
           \<and> \<not> startswith (strip l) ''/*''
           \<and> \<not> endswith (strip l) ''},''"
  shows "scan_lines arrs st ls = Inr (st\<lparr>mode_string := Str (ms @ concat (map strip ls))\<rparr>)"
  using assms
proof (induction ls arbitrary: st ms)
  case Nil
  then show ?case by simp
next
  case (Cons l ls)
  have 1: "scan_line arrs st l = Inr (st\<lparr>mode_string := Str (ms @ strip l)\<rparr>)"
    using Cons.prems by (intro scan_continuation_line[of st arr]) simp_all
  have 2: "scan_lines arrs (st\<lparr>mode_string := Str (ms @ strip l)\<rparr>) ls
           = Inr (st\<lparr>mode_string := Str (ms @ strip l)\<rparr>
                    \<lparr>mode_string := Str ((ms @ strip l) @ concat (map strip ls))\<rparr>)"
    using Cons.prems by (intro Cons.IH[of _ "ms @ strip l"]) simp_all
  show ?case by (simp add: 1 2 bind_err_Inr)
qed

lemma scan_closing_line:
  assumes "current_array st = Some arr" and "arr \<noteq> []"
    and "mode_string st = Str ms"
    and "\<not> startswith (strip l) ''};''"
    and "\<not> startswith (strip l) ''static const struct drm_display_mode''"
    and "\<not> startswith (strip l) ''/*''"
    and "endswith (strip l) ''},''"
    and "parse_mode_string (ms @ strip l) = Inr (w, md)"
  shows "scan_line arrs st l
         = Inr (st\<lparr>mode_string := Str (ms @ strip l), video_modes := video_modes st @ [md]\<rparr>)"
  using assms by (simp add: scan_line_def accumulate_def bind_err_def Let_def)

lemma entry_16_parse:
  "parse_mode_string (concat (map strip entry_16)) = Inr (False, mode_16)"
  by (simp add: entry_16_def mode_16_def model_defs eval_rules
      del: eval_dels cong: bind_err_cong let_weak_cong prod.case_cong_weak)

lemma entry_16_lines:
  "entry_16 = hd entry_16 # butlast (tl entry_16) @ [last entry_16]"
  by (simp add: entry_16_def)

lemma entry_16_shape:
  "startswith (strip (hd entry_16)) ''/*''"
  "\<not> endswith (strip (hd entry_16)) ''},''"
  "\<forall>k\<in>set (butlast (tl entry_16)). \<not> startswith (strip k) ''};''
           \<and> \<not> startswith (strip k) ''static const struct drm_display_mode''
           \<and> \<not> startswith (strip k) ''/*''
           \<and> \<not> endswith (strip k) ''},''"
  "\<not> startswith (strip (last entry_16)) ''};''"
  "\<not> startswith (strip (last entry_16)) ''static const struct drm_display_mode''"
  "\<not> startswith (strip (last entry_16)) ''/*''"
  "endswith (strip (last entry_16)) ''},''"
  by (simp_all add: entry_16_def eval_rules del: eval_dels)

section \<open>The rounding error of the float operations\<close>

lemma bit_length_bounds:
  "0 < n \<Longrightarrow> 2 ^ (bit_length n - 1) \<le> n \<and> n < 2 ^ bit_length n"
proof (induction n rule: bit_length.induct)
  case (1 n)
  have half: "2 * (n div 2) \<le> n" "n \<le> 2 * (n div 2) + 1"
    by presburger+
  show ?case
  proof (cases "n div 2 = 0")
    case True
    with 1(2) half have "n = 1" by linarith
    then show ?thesis by (simp add: bit_length.simps)
  next
    case False
    with 1 have ih: "2 ^ (bit_length (n div 2) - 1) \<le> n div 2" "n div 2 < 2 ^ bit_length (n div 2)"
      by auto
    have bl: "bit_length n = Suc (bit_length (n div 2))"
      using 1(2) by (subst bit_length.simps) simp
    have pos: "0 < bit_length (n div 2)"
      using False by (subst bit_length.simps) simp
    then obtain k where k: "bit_length (n div 2) = Suc k" by (cases "bit_length (n div 2)") auto
    from ih have "(2::nat) ^ k \<le> n div 2" "n div 2 < 2 * 2 ^ k"
      unfolding k by simp_all
    with half have "(2::nat) * 2 ^ k \<le> n" "n < 2 * (2 * 2 ^ k)"
      by linarith+
    then show ?thesis unfolding bl k by simp
  qed
qed

lemma round_half_even_err:
  assumes "0 < D"
  shows "\<bar>rat_of_int (round_half_even N D) - of_int N / of_int D\<bar> \<le> 1 / 2"
proof -
  define q where "q = N div D"
  define r where "r = N mod D"
  define f where "f = rat_of_int r / of_int D"
  have N: "N = q * D + r"
    by (simp add: q_def r_def)
  have frac: "rat_of_int N / of_int D = of_int q + f"
    using assms by (simp add: N f_def field_simps)
  have rhe: "round_half_even N D =
      (if 2 * r < D then q else if D < 2 * r then q + 1 else if even q then q else q + 1)"
    by (simp add: round_half_even_def Let_def q_def r_def)
  have f0: "0 \<le> f" "f < 1"
    using assms by (simp_all add: f_def r_def)
  have lt: "2 * r < D \<Longrightarrow> f < 1 / 2"
  proof -
    assume "2 * r < D"
    then have "rat_of_int (2 * r) < of_int D" by (simp only: of_int_less_iff)
    then show ?thesis using assms by (simp add: f_def field_simps)
  qed
  have gt: "D < 2 * r \<Longrightarrow> 1 / 2 < f"
  proof -
    assume "D < 2 * r"
    then have "rat_of_int D < of_int (2 * r)" by (simp only: of_int_less_iff)
    then show ?thesis using assms by (simp add: f_def field_simps)
  qed
  have eq: "\<not> 2 * r < D \<Longrightarrow> \<not> D < 2 * r \<Longrightarrow> f = 1 / 2"
  proof -
    assume "\<not> 2 * r < D" "\<not> D < 2 * r"
    then have "2 * r = D" by linarith
    then have "rat_of_int (2 * r) = of_int D" by (simp only: of_int_eq_iff)
    then show ?thesis using assms by (simp add: f_def field_simps)
  qed
  show ?thesis
    unfolding rhe frac using f0 lt gt eq by (auto simp: abs_if)
qed


lemma two_powi_add: "(2::rat) powi a * 2 powi b = 2 powi (a + b)"
  by (simp add: power_int_add)

lemma int_pow_bounds:
  assumes "0 < n"
  shows "(2::rat) powi (int (bit_length (nat n)) - 1) \<le> of_int n"
    and "rat_of_int n < 2 powi int (bit_length (nat n))"
proof -
  define b where "b = bit_length (nat n)"
  from assms bit_length_bounds[of "nat n"] have a: "2 ^ (b - 1) \<le> nat n" "nat n < 2 ^ b"
    by (simp_all add: b_def)
  from a(2) assms have "0 < b" by (cases b) auto
  then have e: "int b - 1 = int (b - 1)" by simp
  have n: "rat_of_int n = of_nat (nat n)" using assms by simp
  from a(1) have "(of_nat (2 ^ (b - 1)) :: rat) \<le> of_nat (nat n)"
    by (simp only: of_nat_le_iff)
  then show "(2::rat) powi (int (bit_length (nat n)) - 1) \<le> of_int n"
    unfolding b_def[symmetric] e n by simp
  from a(2) have "(of_nat (nat n) :: rat) < of_nat (2 ^ b)"
    by (simp only: of_nat_less_iff)
  then show "rat_of_int n < 2 powi int (bit_length (nat n))"
    unfolding b_def[symmetric] n by simp
qed

lemma ilog2_bounds:
  assumes "0 < n" "0 < d"
  shows "2 powi (ilog2 n d) \<le> rat_of_int n / of_int d"
    and "rat_of_int n / of_int d < 2 powi (ilog2 n d + 1)"
proof -
  define bn where "bn = int (bit_length (nat n))"
  define bd where "bd = int (bit_length (nat d))"
  define k where "k = bn - bd"
  define Q where "Q = rat_of_int n / of_int d"
  have n: "(2::rat) powi (bn - 1) \<le> of_int n" "rat_of_int n < 2 powi bn"
    unfolding bn_def using int_pow_bounds[OF assms(1)] by auto
  have d: "(2::rat) powi (bd - 1) \<le> of_int d" "rat_of_int d < 2 powi bd"
    unfolding bd_def using int_pow_bounds[OF assms(2)] by auto
  have dpos: "0 < rat_of_int d" using assms(2) by simp
  have "rat_of_int n < 2 powi (k + 1) * 2 powi (bd - 1)"
    using n(2) by (simp add: two_powi_add k_def)
  also have "\<dots> \<le> 2 powi (k + 1) * of_int d"
    using d(1) by (intro mult_left_mono) simp_all
  finally have up: "Q < 2 powi (k + 1)"
    using dpos by (simp add: Q_def field_simps)
  have "(2::rat) powi (k - 1) * of_int d \<le> 2 powi (k - 1) * 2 powi bd"
    using d(2) by (intro mult_left_mono) simp_all
  also have "\<dots> \<le> of_int n"
    using n(1) by (simp add: two_powi_add k_def)
  finally have lo: "2 powi (k - 1) \<le> Q"
    using dpos by (simp add: Q_def field_simps)
  have test: "(if 0 \<le> k then d * 2 ^ nat k \<le> n else d \<le> n * 2 ^ nat (- k)) = (2 powi k \<le> Q)"
  proof (cases "0 \<le> k")
    case True
    then have p: "(2::rat) powi k = 2 ^ nat k" by (simp add: power_int_def)
    have "(d * 2 ^ nat k \<le> n) = (rat_of_int (d * 2 ^ nat k) \<le> of_int n)"
      by (simp only: of_int_le_iff)
    also have "\<dots> = (2 powi k \<le> Q)"
      using dpos by (simp add: p Q_def field_simps)
    finally show ?thesis using True by simp
  next
    case False
    then have p: "(2::rat) powi k = 1 / 2 ^ nat (- k)" by (simp add: power_int_def field_simps)
    have "(d \<le> n * 2 ^ nat (- k)) = (rat_of_int d \<le> of_int (n * 2 ^ nat (- k)))"
      by (simp only: of_int_le_iff)
    also have "\<dots> = (2 powi k \<le> Q)"
      using dpos by (simp add: p Q_def field_simps)
    finally show ?thesis using False by simp
  qed
  have il: "ilog2 n d = (if 2 powi k \<le> Q then k else k - 1)"
    unfolding ilog2_def Let_def bn_def[symmetric] bd_def[symmetric] k_def[symmetric] test ..
  show "2 powi (ilog2 n d) \<le> rat_of_int n / of_int d"
    unfolding Q_def[symmetric] il using lo by simp
  show "rat_of_int n / of_int d < 2 powi (ilog2 n d + 1)"
    unfolding Q_def[symmetric] il using up by (simp add: not_le)
qed


lemma two_powi_nat: "0 \<le> k \<Longrightarrow> (2::rat) ^ nat k = 2 powi k"
  by (simp add: power_int_def)

lemma two_powi_nat_neg: "k < 0 \<Longrightarrow> (2::rat) ^ nat (- k) = 1 / 2 powi k"
  by (simp add: power_int_def field_simps)

lemma round_pos_eq:
  "round_pos n d =
     (if 0 \<le> rexp n d \<and> 2 ^ 1024 \<le> rsig n d * 2 ^ nat (rexp n d) then None
      else Some (rsig n d, rexp n d))"
  by (simp add: round_pos_def rexp_def rsig_def Let_def)

lemma rsig_err:
  assumes "0 < n" "0 < d"
  shows "\<bar>rat_of_int (rsig n d) * 2 powi (rexp n d) - of_int n / of_int d\<bar> \<le> 2 powi (rexp n d - 1)"
proof -
  define p where "p = rexp n d"
  define Q where "Q = rat_of_int n / of_int d"
  have pp: "0 < (2::rat) powi p" by simp
  have half: "(2::rat) powi (p - 1) = 2 powi p / 2"
    by (simp add: power_int_diff)
  have "\<bar>rat_of_int (rsig n d) - Q / 2 powi p\<bar> \<le> 1 / 2"
  proof (cases "0 \<le> p")
    case True
    have "\<bar>rat_of_int (round_half_even n (d * 2 ^ nat p)) - of_int n / of_int (d * 2 ^ nat p)\<bar> \<le> 1 / 2"
      using assms(2) by (intro round_half_even_err) simp
    moreover have "rat_of_int n / of_int (d * 2 ^ nat p) = Q / 2 powi p"
      using True by (simp add: Q_def two_powi_nat)
    moreover have "rsig n d = round_half_even n (d * 2 ^ nat p)"
      using True by (simp add: rsig_def p_def)
    ultimately show ?thesis by simp
  next
    case False
    have "\<bar>rat_of_int (round_half_even (n * 2 ^ nat (- p)) d) - of_int (n * 2 ^ nat (- p)) / of_int d\<bar> \<le> 1 / 2"
      using assms(2) by (intro round_half_even_err)
    moreover have "rat_of_int (n * 2 ^ nat (- p)) / of_int d = Q / 2 powi p"
      using False by (simp add: Q_def two_powi_nat_neg)
    moreover have "rsig n d = round_half_even (n * 2 ^ nat (- p)) d"
      using False by (simp add: rsig_def p_def)
    ultimately show ?thesis by simp
  qed
  then have "\<bar>rat_of_int (rsig n d) - Q / 2 powi p\<bar> * 2 powi p \<le> 1 / 2 * 2 powi p"
    using pp by (intro mult_right_mono) simp_all
  also have "\<bar>rat_of_int (rsig n d) - Q / 2 powi p\<bar> * 2 powi p
             = \<bar>(rat_of_int (rsig n d) - Q / 2 powi p) * 2 powi p\<bar>"
    using pp by (simp add: abs_mult)
  also have "(rat_of_int (rsig n d) - Q / 2 powi p) * 2 powi p = rat_of_int (rsig n d) * 2 powi p - Q"
    using pp by (simp add: field_simps)
  finally show ?thesis
    unfolding p_def[symmetric] Q_def[symmetric] half by simp
qed

lemma rexp_rel:
  assumes "0 < n" "0 < d" "2 powi (- 1030) \<le> rat_of_int n / of_int d"
  shows "2 powi (rexp n d - 1) \<le> 2 powi (- 45) * (rat_of_int n / of_int d)"
proof (cases "- 1022 \<le> ilog2 n d")
  case True
  then have "rexp n d - 1 = - 53 + ilog2 n d" by (simp add: rexp_def)
  then have "(2::rat) powi (rexp n d - 1) = 2 powi (- 53) * 2 powi (ilog2 n d)"
    by (simp only: two_powi_add)
  also have "\<dots> \<le> 2 powi (- 53) * (rat_of_int n / of_int d)"
    using ilog2_bounds(1)[OF assms(1,2)] by (intro mult_left_mono) simp_all
  also have "\<dots> \<le> 2 powi (- 45) * (rat_of_int n / of_int d)"
    using assms(1,2) by (intro mult_right_mono power_int_increasing) simp_all
  finally show ?thesis .
next
  case False
  then have "rexp n d - 1 = - 45 + (- 1030)" by (simp add: rexp_def)
  then have "(2::rat) powi (rexp n d - 1) = 2 powi (- 45) * 2 powi (- 1030)"
    by (simp only: two_powi_add)
  also have "\<dots> \<le> 2 powi (- 45) * (rat_of_int n / of_int d)"
    using assms(3) by (intro mult_left_mono) simp_all
  finally show ?thesis .
qed

lemma round_pos_finite:
  assumes "0 < n" "0 < d" "rat_of_int n / of_int d < 2 powi 1023"
  shows "round_pos n d = Some (rsig n d, rexp n d)"
proof -
  define p where "p = rexp n d"
  define Q where "Q = rat_of_int n / of_int d"
  have "\<not> (0 \<le> p \<and> 2 ^ 1024 \<le> rsig n d * 2 ^ nat p)"
  proof
    assume a: "0 \<le> p \<and> 2 ^ 1024 \<le> rsig n d * 2 ^ nat p"
    then have "rat_of_int (2 ^ 1024) \<le> of_int (rsig n d * 2 ^ nat p)"
      by (simp only: of_int_le_iff)
    then have big: "(2::rat) powi 1024 \<le> of_int (rsig n d) * 2 powi p"
      using a by (simp add: two_powi_nat)
    have "2 powi (ilog2 n d) \<le> Q" using ilog2_bounds(1)[OF assms(1,2)] by (simp add: Q_def)
    with assms(3) have "(2::rat) powi (ilog2 n d) < 2 powi 1023" by (simp add: Q_def)
    then have "ilog2 n d < 1023"
      by (intro power_int_le_imp_less_exp[of "2::rat"]) simp_all
    then have "p - 1 \<le> 1023" by (simp add: p_def rexp_def)
    then have "(2::rat) powi (p - 1) \<le> 2 powi 1023"
      by (intro power_int_increasing) simp_all
    moreover from rsig_err[OF assms(1,2)] have "rat_of_int (rsig n d) * 2 powi p \<le> Q + 2 powi (p - 1)"
      by (simp add: p_def Q_def abs_le_iff)
    ultimately have "rat_of_int (rsig n d) * 2 powi p < 2 powi 1023 + 2 powi 1023"
      using assms(3) by (simp add: Q_def)
    also have "(2::rat) powi 1023 + 2 powi 1023 = 2 powi 1024" by simp
    finally show False using big by simp
  qed
  then show ?thesis by (simp add: round_pos_eq p_def)
qed


lemma fval_Finite: "fval (Finite m e) = of_int m * 2 powi e"
  by (simp add: fval_def)

lemma round_q_err:
  assumes "0 < d" "n \<noteq> 0"
    and "2 powi (- 1030) \<le> \<bar>rat_of_int n / of_int d\<bar>"
    and "\<bar>rat_of_int n / of_int d\<bar> < 2 powi 1023"
  shows "\<exists>m p. round_q n d = Finite m p
           \<and> \<bar>fval (Finite m p) - of_int n / of_int d\<bar> \<le> 2 powi (- 45) * \<bar>rat_of_int n / of_int d\<bar>"
proof (cases "0 < n")
  case True
  then have Q: "\<bar>rat_of_int n / of_int d\<bar> = of_int n / of_int d"
    using assms(1) by simp
  have a3: "2 powi (- 1030) \<le> rat_of_int n / of_int d"
    using assms(3) unfolding Q .
  have a4: "rat_of_int n / of_int d < 2 powi 1023"
    using assms(4) unfolding Q .
  have r: "round_q n d = Finite (rsig n d) (rexp n d)"
    using True round_pos_finite[OF True assms(1) a4] by (simp add: round_q_def)
  have "\<bar>rat_of_int (rsig n d) * 2 powi (rexp n d) - of_int n / of_int d\<bar> \<le> 2 powi (rexp n d - 1)"
    by (rule rsig_err[OF True assms(1)])
  also have "\<dots> \<le> 2 powi (- 45) * (rat_of_int n / of_int d)"
    by (rule rexp_rel[OF True assms(1) a3])
  finally have "\<bar>fval (Finite (rsig n d) (rexp n d)) - of_int n / of_int d\<bar>
        \<le> 2 powi (- 45) * \<bar>rat_of_int n / of_int d\<bar>"
    unfolding Q fval_Finite .
  with r show ?thesis by blast
next
  case False
  with assms(2) have neg: "0 < - n" by simp
  have Q: "\<bar>rat_of_int n / of_int d\<bar> = of_int (- n) / of_int d"
    using assms(1) neg by (simp add: abs_if field_simps)
  have a3: "2 powi (- 1030) \<le> rat_of_int (- n) / of_int d"
    using assms(3) unfolding Q .
  have a4: "rat_of_int (- n) / of_int d < 2 powi 1023"
    using assms(4) unfolding Q .
  have r: "round_q n d = Finite (- rsig (- n) d) (rexp (- n) d)"
    using False assms(2) round_pos_finite[OF neg assms(1) a4] by (simp add: round_q_def)
  have v: "\<bar>fval (Finite (- rsig (- n) d) (rexp (- n) d)) - of_int n / of_int d\<bar>
           = \<bar>rat_of_int (rsig (- n) d) * 2 powi rexp (- n) d - of_int (- n) / of_int d\<bar>"
    by (simp add: fval_Finite abs_if)
  have "\<bar>rat_of_int (rsig (- n) d) * 2 powi rexp (- n) d - of_int (- n) / of_int d\<bar>
        \<le> 2 powi (rexp (- n) d - 1)"
    by (rule rsig_err[OF neg assms(1)])
  also have "\<dots> \<le> 2 powi (- 45) * (rat_of_int (- n) / of_int d)"
    by (rule rexp_rel[OF neg assms(1) a3])
  finally have "\<bar>fval (Finite (- rsig (- n) d) (rexp (- n) d)) - of_int n / of_int d\<bar>
        \<le> 2 powi (- 45) * \<bar>rat_of_int n / of_int d\<bar>"
    unfolding Q v .
  with r show ?thesis by blast
qed

lemma round_dyadic_err:
  assumes "M \<noteq> 0"
    and "2 powi (- 1030) \<le> \<bar>rat_of_int M * 2 powi e\<bar>"
    and "\<bar>rat_of_int M * 2 powi e\<bar> < 2 powi 1023"
  shows "\<exists>m p. round_dyadic M e = Finite m p
           \<and> \<bar>fval (Finite m p) - of_int M * 2 powi e\<bar> \<le> 2 powi (- 45) * \<bar>rat_of_int M * 2 powi e\<bar>"
proof (cases "0 \<le> e")
  case True
  have q: "rat_of_int (M * 2 ^ nat e) / of_int 1 = of_int M * 2 powi e"
    using True by (simp add: two_powi_nat)
  have "\<exists>m p. round_q (M * 2 ^ nat e) 1 = Finite m p
           \<and> \<bar>fval (Finite m p) - of_int (M * 2 ^ nat e) / of_int 1\<bar>
               \<le> 2 powi (- 45) * \<bar>rat_of_int (M * 2 ^ nat e) / of_int 1\<bar>"
    using assms unfolding q[symmetric] by (intro round_q_err) simp_all
  then show ?thesis
    unfolding q using True by (simp add: round_dyadic_def)
next
  case False
  have q: "rat_of_int M / of_int (2 ^ nat (- e)) = of_int M * 2 powi e"
    using False by (simp add: two_powi_nat_neg)
  have "\<exists>m p. round_q M (2 ^ nat (- e)) = Finite m p
           \<and> \<bar>fval (Finite m p) - of_int M / of_int (2 ^ nat (- e))\<bar>
               \<le> 2 powi (- 45) * \<bar>rat_of_int M / of_int (2 ^ nat (- e))\<bar>"
    using assms unfolding q[symmetric] by (intro round_q_err) simp_all
  then show ?thesis
    unfolding q using False by (simp add: round_dyadic_def)
qed

lemma align:
  "rat_of_int (m * 2 ^ nat (e1 - min e1 e2)) * 2 powi (min e1 e2) = of_int m * 2 powi e1"
  "rat_of_int (m * 2 ^ nat (e2 - min e1 e2)) * 2 powi (min e1 e2) = of_int m * 2 powi e2"
proof -
  have "(2::rat) ^ nat (e1 - min e1 e2) * 2 powi (min e1 e2) = 2 powi e1"
    by (simp add: two_powi_nat two_powi_add)
  then show "rat_of_int (m * 2 ^ nat (e1 - min e1 e2)) * 2 powi (min e1 e2) = of_int m * 2 powi e1"
    by (simp add: mult.assoc)
  have "(2::rat) ^ nat (e2 - min e1 e2) * 2 powi (min e1 e2) = 2 powi e2"
    by (simp add: two_powi_nat two_powi_add)
  then show "rat_of_int (m * 2 ^ nat (e2 - min e1 e2)) * 2 powi (min e1 e2) = of_int m * 2 powi e2"
    by (simp add: mult.assoc)
qed

lemma flt_fval: "flt (Finite m1 e1) (Finite m2 e2) = (fval (Finite m1 e1) < fval (Finite m2 e2))"
proof -
  define e where "e = min e1 e2"
  have "(m1 * 2 ^ nat (e1 - e) < m2 * 2 ^ nat (e2 - e))
        = (rat_of_int (m1 * 2 ^ nat (e1 - e)) < of_int (m2 * 2 ^ nat (e2 - e)))"
    by (simp only: of_int_less_iff)
  also have "\<dots> = (rat_of_int (m1 * 2 ^ nat (e1 - e)) * 2 powi e < of_int (m2 * 2 ^ nat (e2 - e)) * 2 powi e)"
    by simp
  finally show ?thesis
    unfolding e_def align by (simp add: fval_Finite Let_def)
qed

lemma fne_fval: "fne (Finite m1 e1) (Finite m2 e2) = (fval (Finite m1 e1) \<noteq> fval (Finite m2 e2))"
proof -
  define e where "e = min e1 e2"
  have "(m1 * 2 ^ nat (e1 - e) = m2 * 2 ^ nat (e2 - e))
        = (rat_of_int (m1 * 2 ^ nat (e1 - e)) = of_int (m2 * 2 ^ nat (e2 - e)))"
    by (simp only: of_int_eq_iff)
  also have "\<dots> = (rat_of_int (m1 * 2 ^ nat (e1 - e)) * 2 powi e = of_int (m2 * 2 ^ nat (e2 - e)) * 2 powi e)"
    by simp
  finally show ?thesis
    unfolding e_def align by (simp add: fval_Finite Let_def)
qed

lemma fsub_exact:
  "fsub (Finite m1 e1) (Finite m2 e2) =
     round_dyadic (m1 * 2 ^ nat (e1 - min e1 e2) - m2 * 2 ^ nat (e2 - min e1 e2)) (min e1 e2)"
  "rat_of_int (m1 * 2 ^ nat (e1 - min e1 e2) - m2 * 2 ^ nat (e2 - min e1 e2)) * 2 powi (min e1 e2)
     = fval (Finite m1 e1) - fval (Finite m2 e2)"
proof -
  show "fsub (Finite m1 e1) (Finite m2 e2) =
     round_dyadic (m1 * 2 ^ nat (e1 - min e1 e2) - m2 * 2 ^ nat (e2 - min e1 e2)) (min e1 e2)"
    by (simp add: Let_def)
  have "rat_of_int (m1 * 2 ^ nat (e1 - min e1 e2) - m2 * 2 ^ nat (e2 - min e1 e2)) * 2 powi (min e1 e2)
        = rat_of_int (m1 * 2 ^ nat (e1 - min e1 e2)) * 2 powi (min e1 e2)
          - rat_of_int (m2 * 2 ^ nat (e2 - min e1 e2)) * 2 powi (min e1 e2)"
    by (simp add: algebra_simps)
  then show "rat_of_int (m1 * 2 ^ nat (e1 - min e1 e2) - m2 * 2 ^ nat (e2 - min e1 e2)) * 2 powi (min e1 e2)
     = fval (Finite m1 e1) - fval (Finite m2 e2)"
    unfolding align by (simp add: fval_Finite)
qed

lemma fmul_exact:
  "fmul (Finite m1 e1) (Finite m2 e2) = round_dyadic (m1 * m2) (e1 + e2)"
  "rat_of_int (m1 * m2) * 2 powi (e1 + e2) = fval (Finite m1 e1) * fval (Finite m2 e2)"
  by (simp_all add: fval_Finite power_int_add)

lemma float_0_005_eq: "float_0_005 = Finite 5764607523034235 (- 60)"
  by (simp add: float_0_005_def round_q_def round_pos_def ilog2_def round_half_even_def
      bit_length.simps Let_def)


lemma fabs_fval: "fval (Finite \<bar>m\<bar> p) = \<bar>fval (Finite m p)\<bar>"
  by (simp add: fval_Finite abs_mult)

text \<open>
  The two sides of the comparison of line 140, for a stated rate \<open>y\<close> between \<open>2 ^ -1000\<close>
  and \<open>2 ^ 1000\<close> and a computed rate at the distance \<open>\<theta> * y\<close> from it: each is within the
  relative error \<open>2 ^ -45\<close> of its exact value.
\<close>

lemma tolerance_sides:
  assumes diff: "\<bar>fval (Finite a b) - fval (Finite a' b')\<bar> = \<theta> * fval (Finite a' b')"
    and lo: "2 powi (- 1000) \<le> fval (Finite a' b')" and hi: "fval (Finite a' b') \<le> 2 powi 1000"
    and th: "2 powi (- 30) \<le> \<theta>" "\<theta> \<le> 2 powi 20"
  shows "\<exists>m p m' p'.
           fabs (fsub (Finite a' b') (Finite a b)) = Finite m p
         \<and> fmul float_0_005 (Finite a' b') = Finite m' p'
         \<and> \<bar>fval (Finite m p) - \<theta> * fval (Finite a' b')\<bar> \<le> 2 powi (- 45) * (\<theta> * fval (Finite a' b'))
         \<and> \<bar>fval (Finite m' p') - 5764607523034235 / 2 ^ 60 * fval (Finite a' b')\<bar>
             \<le> 2 powi (- 45) * (5764607523034235 / 2 ^ 60 * fval (Finite a' b'))"
proof -
  define y where "y = fval (Finite a' b')"
  define x where "x = fval (Finite a b)"
  define c :: rat where "c = 5764607523034235 / 2 ^ 60"
  have ypos: "0 < y"
  proof -
    have "(0::rat) < 2 powi (- 1000)" by (rule zero_less_power_int) simp
    with lo show ?thesis by (simp only: y_def)
  qed
  have small: "(2::rat) powi (- 1030) \<le> 2 powi (- 30) * 2 powi (- 1000)"
    by (simp add: power_int_add [symmetric])
  have large: "(2::rat) powi 20 * 2 powi 1000 < 2 powi 1023"
    by (simp add: power_int_add [symmetric])
  have kpos: "(0::rat) < 2 powi (- 30)" by (rule zero_less_power_int) simp
  have c: "2 powi (- 30) \<le> c" "c \<le> 2 powi 20" by (simp_all add: c_def power_int_minus)
  have range: "2 powi (- 1030) \<le> k * y \<and> k * y < 2 powi 1023 \<and> 0 < k * y"
    if "2 powi (- 30) \<le> k" "k \<le> 2 powi 20" for k :: rat
  proof -
    have "2 powi (- 30) * 2 powi (- 1000) \<le> k * y"
      using that(1) lo kpos by (intro mult_mono) (simp_all only: y_def zero_le_power_int zero_le_numeral less_imp_le)
    with small have 1: "2 powi (- 1030) \<le> k * y" by (rule order_trans)
    from kpos that(1) have k0: "0 < k" by (rule less_le_trans)
    have "k * y \<le> 2 powi 20 * 2 powi 1000"
      using that(2) hi ypos k0 by (intro mult_mono) (simp_all only: y_def zero_le_power_int zero_le_numeral less_imp_le)
    with large have 2: "k * y < 2 powi 1023" by (rule le_less_trans[rotated])
    from k0 ypos have "0 < k * y" by (rule mult_pos_pos)
    with 1 2 show ?thesis by (intro conjI)
  qed
  text \<open>the difference\<close>
  define M where "M = a' * 2 ^ nat (b' - min b' b) - a * 2 ^ nat (b - min b' b)"
  have sub: "fsub (Finite a' b') (Finite a b) = round_dyadic M (min b' b)"
    and Mv: "rat_of_int M * 2 powi (min b' b) = y - x"
    unfolding M_def y_def x_def by (rule fsub_exact)+
  from diff have d: "\<bar>y - x\<bar> = \<theta> * y"
    by (simp add: x_def y_def abs_minus_commute)
  from range[OF th] have rt: "2 powi (- 1030) \<le> \<theta> * y" "\<theta> * y < 2 powi 1023" "0 < \<theta> * y"
    by simp_all
  have "M \<noteq> 0"
  proof
    assume "M = 0"
    with Mv have "y - x = 0" by simp
    then have "\<bar>y - x\<bar> = 0" by simp
    then have "\<theta> * y = 0" unfolding d .
    with rt(3) show False by simp
  qed
  moreover have "2 powi (- 1030) \<le> \<bar>rat_of_int M * 2 powi (min b' b)\<bar>"
    unfolding Mv d by (rule rt(1))
  moreover have "\<bar>rat_of_int M * 2 powi (min b' b)\<bar> < 2 powi 1023"
    unfolding Mv d by (rule rt(2))
  ultimately obtain m p where
    mp: "round_dyadic M (min b' b) = Finite m p"
      "\<bar>fval (Finite m p) - of_int M * 2 powi (min b' b)\<bar>
         \<le> 2 powi (- 45) * \<bar>rat_of_int M * 2 powi (min b' b)\<bar>"
    using round_dyadic_err[of M "min b' b"] by blast
  have A: "fabs (fsub (Finite a' b') (Finite a b)) = Finite \<bar>m\<bar> p"
    by (simp only: sub mp(1) fabs_def pyfloat.case)
  have "\<bar>fval (Finite \<bar>m\<bar> p) - \<theta> * y\<bar> = \<bar>\<bar>fval (Finite m p)\<bar> - \<bar>y - x\<bar>\<bar>"
    by (simp only: fabs_fval d)
  also have "\<dots> \<le> \<bar>fval (Finite m p) - (y - x)\<bar>"
    by (rule abs_triangle_ineq3)
  also have "\<dots> \<le> 2 powi (- 45) * (\<theta> * y)"
    using mp(2) unfolding Mv d .
  finally have Aerr: "\<bar>fval (Finite \<bar>m\<bar> p) - \<theta> * y\<bar> \<le> 2 powi (- 45) * (\<theta> * y)" .
  text \<open>the tolerance\<close>
  have mul: "fmul float_0_005 (Finite a' b') = round_dyadic (5764607523034235 * a') (- 60 + b')"
    and Tv: "rat_of_int (5764607523034235 * a') * 2 powi (- 60 + b') = c * y"
  proof -
    show "fmul float_0_005 (Finite a' b') = round_dyadic (5764607523034235 * a') (- 60 + b')"
      by (simp only: float_0_005_eq fmul_exact(1))
    have "rat_of_int (5764607523034235 * a') * 2 powi (- 60 + b')
          = fval (Finite 5764607523034235 (- 60)) * fval (Finite a' b')"
      by (rule fmul_exact(2))
    also have "fval (Finite 5764607523034235 (- 60)) = c"
      by (simp add: fval_Finite c_def power_int_minus field_simps)
    finally show "rat_of_int (5764607523034235 * a') * 2 powi (- 60 + b') = c * y"
      by (simp only: y_def)
  qed
  from range[OF c] have rc: "2 powi (- 1030) \<le> c * y" "c * y < 2 powi 1023" "0 < c * y"
    by simp_all
  have cabs: "\<bar>c * y\<bar> = c * y" using rc(3) by simp
  have "5764607523034235 * a' \<noteq> 0"
  proof
    assume "5764607523034235 * a' = 0"
    with Tv have "c * y = 0" by simp
    with rc(3) show False by simp
  qed
  moreover have "2 powi (- 1030) \<le> \<bar>rat_of_int (5764607523034235 * a') * 2 powi (- 60 + b')\<bar>"
    unfolding Tv cabs by (rule rc(1))
  moreover have "\<bar>rat_of_int (5764607523034235 * a') * 2 powi (- 60 + b')\<bar> < 2 powi 1023"
    unfolding Tv cabs by (rule rc(2))
  ultimately obtain m' p' where
    mp': "round_dyadic (5764607523034235 * a') (- 60 + b') = Finite m' p'"
      "\<bar>fval (Finite m' p') - of_int (5764607523034235 * a') * 2 powi (- 60 + b')\<bar>
         \<le> 2 powi (- 45) * \<bar>rat_of_int (5764607523034235 * a') * 2 powi (- 60 + b')\<bar>"
    using round_dyadic_err[of "5764607523034235 * a'" "- 60 + b'"] by blast
  have Terr: "\<bar>fval (Finite m' p') - c * y\<bar> \<le> 2 powi (- 45) * (c * y)"
    using mp'(2) unfolding Tv cabs .
  from A mul mp'(1) Aerr Terr show ?thesis
    unfolding y_def c_def by (intro exI[of _ "\<bar>m\<bar>"] exI[of _ p] exI[of _ m'] exI[of _ p']) simp
qed


lemma abs_err_bounds:
  assumes "\<bar>v - t\<bar> \<le> e * (t::rat)"
  shows "v \<le> (1 + e) * t" and "(1 - e) * t \<le> v"
  using assms by (auto simp: abs_le_iff algebra_simps)

lemma scale_less:
  assumes "(k1::rat) < k2" "0 < y"
  shows "k1 * y < k2 * y"
  using assms by simp

lemma verdict_within:
  assumes diff: "\<bar>fval (Finite a b) - fval (Finite a' b')\<bar> = \<theta> * fval (Finite a' b')"
    and th: "2 powi (- 30) \<le> \<theta>" "\<theta> \<le> 499 / 100000"
    and lo: "2 powi (- 1000) \<le> fval (Finite a' b')" and hi: "fval (Finite a' b') \<le> 2 powi 1000"
  shows "fps_verdict (Finite a b) (Finite a' b') = Inr True"
proof -
  define y where "y = fval (Finite a' b')"
  define c :: rat where "c = 5764607523034235 / 2 ^ 60"
  define eps :: rat where "eps = 2 powi (- 45)"
  have ypos: "0 < y"
  proof -
    have "(0::rat) < 2 powi (- 1000)" by (rule zero_less_power_int) simp
    with lo show ?thesis by (simp only: y_def)
  qed
  have kpos: "(0::rat) < 2 powi (- 30)" by (rule zero_less_power_int) simp
  from kpos th(1) have thpos: "0 < \<theta>" by (rule less_le_trans)
  have "(499 / 100000 :: rat) \<le> 2 powi 20" by simp
  with th(2) have th2: "\<theta> \<le> 2 powi 20" by (rule order_trans)
  from tolerance_sides[OF diff lo hi th(1) th2] obtain m p m' p' where
    A: "fabs (fsub (Finite a' b') (Finite a b)) = Finite m p"
    and T: "fmul float_0_005 (Finite a' b') = Finite m' p'"
    and Aerr: "\<bar>fval (Finite m p) - \<theta> * y\<bar> \<le> eps * (\<theta> * y)"
    and Terr: "\<bar>fval (Finite m' p') - c * y\<bar> \<le> eps * (c * y)"
    unfolding y_def c_def eps_def by auto
  have K0: "499 / 100000 * (1 + eps) < c * (1 - eps)"
    by (simp add: c_def eps_def power_int_minus field_simps)
  have "0 \<le> 1 + eps" by (simp add: eps_def)
  with th(2) have "\<theta> * (1 + eps) \<le> 499 / 100000 * (1 + eps)" by (rule mult_right_mono)
  with K0 have K: "\<theta> * (1 + eps) < c * (1 - eps)" by (rule le_less_trans[rotated])
  have "fval (Finite m p) \<le> (1 + eps) * (\<theta> * y)"
    by (rule abs_err_bounds(1)[OF Aerr])
  also have "\<dots> = \<theta> * (1 + eps) * y"
    by (simp only: ac_simps)
  also have "\<dots> < c * (1 - eps) * y"
    by (rule scale_less[OF K ypos])
  also have "\<dots> = (1 - eps) * (c * y)"
    by (simp only: ac_simps)
  also have "\<dots> \<le> fval (Finite m' p')"
    by (rule abs_err_bounds(2)[OF Terr])
  finally have less: "fval (Finite m p) < fval (Finite m' p')" .
  have "fval (Finite a b) \<noteq> fval (Finite a' b')"
  proof
    assume "fval (Finite a b) = fval (Finite a' b')"
    with diff have "\<theta> * y = 0" by (simp add: y_def)
    with ypos thpos show False by simp
  qed
  then have ne: "fne (Finite a b) (Finite a' b')"
    unfolding fne_fval .
  from less have "flt (Finite m p) (Finite m' p')"
    unfolding flt_fval .
  with ne show ?thesis
    by (simp only: fps_verdict_def A T if_True)
qed

lemma verdict_outside:
  assumes diff: "\<bar>fval (Finite a b) - fval (Finite a' b')\<bar> = \<theta> * fval (Finite a' b')"
    and th: "501 / 100000 \<le> \<theta>" "\<theta> \<le> 2 powi 20"
    and lo: "2 powi (- 1000) \<le> fval (Finite a' b')" and hi: "fval (Finite a' b') \<le> 2 powi 1000"
  shows "fps_verdict (Finite a b) (Finite a' b') = Inl AssertionError"
proof -
  define y where "y = fval (Finite a' b')"
  define c :: rat where "c = 5764607523034235 / 2 ^ 60"
  define eps :: rat where "eps = 2 powi (- 45)"
  have ypos: "0 < y"
  proof -
    have "(0::rat) < 2 powi (- 1000)" by (rule zero_less_power_int) simp
    with lo show ?thesis by (simp only: y_def)
  qed
  have thpos: "0 < \<theta>" using th(1) by simp
  have "(2::rat) powi (- 30) \<le> 501 / 100000" by (simp add: power_int_minus)
  then have th1: "2 powi (- 30) \<le> \<theta>" using th(1) by (rule order_trans)
  from tolerance_sides[OF diff lo hi th1 th(2)] obtain m p m' p' where
    A: "fabs (fsub (Finite a' b') (Finite a b)) = Finite m p"
    and T: "fmul float_0_005 (Finite a' b') = Finite m' p'"
    and Aerr: "\<bar>fval (Finite m p) - \<theta> * y\<bar> \<le> eps * (\<theta> * y)"
    and Terr: "\<bar>fval (Finite m' p') - c * y\<bar> \<le> eps * (c * y)"
    unfolding y_def c_def eps_def by auto
  have K0: "c * (1 + eps) < 501 / 100000 * (1 - eps)"
    by (simp add: c_def eps_def power_int_minus field_simps)
  have "0 \<le> 1 - eps" by (simp add: eps_def power_int_minus)
  with th(1) have "501 / 100000 * (1 - eps) \<le> \<theta> * (1 - eps)" by (rule mult_right_mono)
  with K0 have K: "c * (1 + eps) < \<theta> * (1 - eps)" by (rule less_le_trans)
  have "fval (Finite m' p') \<le> (1 + eps) * (c * y)"
    by (rule abs_err_bounds(1)[OF Terr])
  also have "\<dots> = c * (1 + eps) * y"
    by (simp only: ac_simps)
  also have "\<dots> < \<theta> * (1 - eps) * y"
    by (rule scale_less[OF K ypos])
  also have "\<dots> = (1 - eps) * (\<theta> * y)"
    by (simp only: ac_simps)
  also have "\<dots> \<le> fval (Finite m p)"
    by (rule abs_err_bounds(2)[OF Aerr])
  finally have less: "\<not> fval (Finite m p) < fval (Finite m' p')" by simp
  have "fval (Finite a b) \<noteq> fval (Finite a' b')"
  proof
    assume "fval (Finite a b) = fval (Finite a' b')"
    with diff have "\<theta> * y = 0" by (simp add: y_def)
    with ypos thpos show False by simp
  qed
  then have ne: "fne (Finite a b) (Finite a' b')"
    unfolding fne_fval .
  from less have "\<not> flt (Finite m p) (Finite m' p')"
    unfolding flt_fval .
  with ne show ?thesis
    by (simp only: fps_verdict_def A T if_True if_False)
qed


text \<open>
  The verdict in terms of the values: equal rates pass in silence; a difference between
  \<open>2 ^ -30\<close> and 0.499% of the stated rate passes with the warning; a difference between
  0.501% and \<open>2 ^ 20\<close> times the stated rate fails.
\<close>

lemma verdict_equal:
  assumes "fval (Finite a b) = fval (Finite a' b')"
  shows "fps_verdict (Finite a b) (Finite a' b') = Inr False"
proof -
  from assms have "\<not> fne (Finite a b) (Finite a' b')"
    unfolding fne_fval by simp
  then show ?thesis
    by (simp only: fps_verdict_def if_False)
qed

lemma verdict_warning:
  assumes lo: "2 powi (- 1000) \<le> fval (Finite a' b')" and hi: "fval (Finite a' b') \<le> 2 powi 1000"
    and d1: "2 powi (- 30) * fval (Finite a' b') \<le> \<bar>fval (Finite a b) - fval (Finite a' b')\<bar>"
    and d2: "\<bar>fval (Finite a b) - fval (Finite a' b')\<bar> \<le> 499 / 100000 * fval (Finite a' b')"
  shows "fps_verdict (Finite a b) (Finite a' b') = Inr True"
proof -
  define y where "y = fval (Finite a' b')"
  define d where "d = \<bar>fval (Finite a b) - fval (Finite a' b')\<bar>"
  define \<theta> where "\<theta> = d / y"
  have ypos: "0 < y"
  proof -
    have "(0::rat) < 2 powi (- 1000)" by (rule zero_less_power_int) simp
    with lo show ?thesis by (simp only: y_def)
  qed
  then have diff: "d = \<theta> * y" by (simp add: \<theta>_def)
  from d1 have "2 powi (- 30) * y \<le> d" by (simp only: y_def d_def)
  then have t1: "2 powi (- 30) \<le> \<theta>"
    unfolding \<theta>_def by (simp only: pos_le_divide_eq[OF ypos])
  from d2 have "d \<le> 499 / 100000 * y" by (simp only: y_def d_def)
  then have t2: "\<theta> \<le> 499 / 100000"
    unfolding \<theta>_def by (simp only: pos_divide_le_eq[OF ypos])
  show ?thesis
    by (rule verdict_within[OF diff[unfolded d_def y_def] t1 t2 lo hi])
qed

lemma verdict_fatal:
  assumes lo: "2 powi (- 1000) \<le> fval (Finite a' b')" and hi: "fval (Finite a' b') \<le> 2 powi 1000"
    and d1: "501 / 100000 * fval (Finite a' b') \<le> \<bar>fval (Finite a b) - fval (Finite a' b')\<bar>"
    and d2: "\<bar>fval (Finite a b) - fval (Finite a' b')\<bar> \<le> 2 powi 20 * fval (Finite a' b')"
  shows "fps_verdict (Finite a b) (Finite a' b') = Inl AssertionError"
proof -
  define y where "y = fval (Finite a' b')"
  define d where "d = \<bar>fval (Finite a b) - fval (Finite a' b')\<bar>"
  define \<theta> where "\<theta> = d / y"
  have ypos: "0 < y"
  proof -
    have "(0::rat) < 2 powi (- 1000)" by (rule zero_less_power_int) simp
    with lo show ?thesis by (simp only: y_def)
  qed
  then have diff: "d = \<theta> * y" by (simp add: \<theta>_def)
  from d1 have "501 / 100000 * y \<le> d" by (simp only: y_def d_def)
  then have t1: "501 / 100000 \<le> \<theta>"
    unfolding \<theta>_def by (simp only: pos_le_divide_eq[OF ypos])
  from d2 have "d \<le> 2 powi 20 * y" by (simp only: y_def d_def)
  then have t2: "\<theta> \<le> 2 powi 20"
    unfolding \<theta>_def by (simp only: pos_divide_le_eq[OF ypos])
  show ?thesis
    by (rule verdict_outside[OF diff[unfolded d_def y_def] t1 t2 lo hi])
qed

lemma verdict_0_4_percent:
  assumes lo: "2 powi (- 1000) \<le> fval (Finite a' b')" and hi: "fval (Finite a' b') \<le> 2 powi 1000"
    and diff: "\<bar>fval (Finite a b) - fval (Finite a' b')\<bar> = 4 / 1000 * fval (Finite a' b')"
  shows "fps_verdict (Finite a b) (Finite a' b') = Inr True"
proof -
  have t1: "(2::rat) powi (- 30) \<le> 4 / 1000" by (simp add: power_int_minus)
  have t2: "(4 / 1000 :: rat) \<le> 499 / 100000" by simp
  show ?thesis by (rule verdict_within[OF diff t1 t2 lo hi])
qed

lemma verdict_0_6_percent:
  assumes lo: "2 powi (- 1000) \<le> fval (Finite a' b')" and hi: "fval (Finite a' b') \<le> 2 powi 1000"
    and diff: "\<bar>fval (Finite a b) - fval (Finite a' b')\<bar> = 6 / 1000 * fval (Finite a' b')"
  shows "fps_verdict (Finite a b) (Finite a' b') = Inl AssertionError"
proof -
  have t1: "(501 / 100000 :: rat) \<le> 6 / 1000" by simp
  have t2: "(6 / 1000 :: rat) \<le> 2 powi 20" by simp
  show ?thesis by (rule verdict_outside[OF diff t1 t2 lo hi])
qed

section \<open>The example rates, evaluated\<close>

lemmas rate_defs =
  entry_rate_60_def entry_rate_1004_def entry_rate_1006_def entry_text_def
  comment_16_def macro_16_def mode_16_def comment_1000_def macro_1004_def macro_1006_def
  mode_1004_def

lemma rate_decoded:
  "decode entry_rate_60 = Inr (comment_16, macro_16, (16, 9))"
  "decode entry_rate_1004 = Inr (comment_1000, macro_1004, (16, 9))"
  "decode entry_rate_1006 = Inr (comment_1000, macro_1006, (16, 9))"
  by (simp_all add: rate_defs model_defs eval_rules
      del: eval_dels cong: bind_err_cong let_weak_cong prod.case_cong_weak)

lemma rate_consistent:
  "check_consistency comment_16 macro_16 (16, 9) = Inr ()"
  "check_consistency comment_1000 macro_1004 (16, 9) = Inr ()"
  "check_consistency comment_1000 macro_1006 (16, 9) = Inr ()"
  by (simp_all add: rate_defs model_defs eval_rules
      del: eval_dels cong: bind_err_cong let_weak_cong prod.case_cong_weak)

lemma rate_assembled:
  "assemble comment_16 macro_16 = Inr mode_16"
  "assemble comment_1000 macro_1004 = Inr mode_1004"
  by (simp_all add: rate_defs model_defs eval_rules
      del: eval_dels cong: bind_err_cong let_weak_cong prod.case_cong_weak)

lemma rate_16_fields:
  "py_int (mac_clock macro_16) = Inr 148500"
  "py_int (mac_vtotal macro_16) = Inr 1125"
  "py_int (mac_htotal macro_16) = Inr 2200"
  "mac_interlaced macro_16 = False"
  "py_float (cmnt_freq comment_16) = Inr (Finite 8444249301319680 (- 47))"
  by (simp_all add: rate_defs eval_rules
      del: eval_dels cong: bind_err_cong let_weak_cong prod.case_cong_weak)

lemma rate_1004_fields:
  "py_int (mac_clock macro_1004) = Inr 2484900"
  "py_int (mac_vtotal macro_1004) = Inr 1125"
  "py_int (mac_htotal macro_1004) = Inr 2200"
  "mac_interlaced macro_1004 = False"
  by (simp_all add: rate_defs eval_rules
      del: eval_dels cong: bind_err_cong let_weak_cong prod.case_cong_weak)

lemma rate_1006_fields:
  "py_int (mac_clock macro_1006) = Inr 2489850"
  "py_int (mac_vtotal macro_1006) = Inr 1125"
  "py_int (mac_htotal macro_1006) = Inr 2200"
  "mac_interlaced macro_1006 = False"
  by (simp_all add: rate_defs eval_rules
      del: eval_dels cong: bind_err_cong let_weak_cong prod.case_cong_weak)

lemma rate_1000_stated:
  "py_float (cmnt_freq comment_1000) = Inr (Finite 8796093022208000 (- 43))"
  by (simp add: rate_defs eval_rules
      del: eval_dels cong: bind_err_cong let_weak_cong prod.case_cong_weak)

lemma rate_floats:
  "float_of_int (148500 * 1000) = Inr (Finite 4982833152000000 (- 25))"
  "float_of_int (2484900 * 1000) = Inr (Finite 5211213004800000 (- 21))"
  "float_of_int (2489850 * 1000) = Inr (Finite 5221593907200000 (- 21))"
  "float_of_int (1125 * 2200) = Inr (Finite 5315022028800000 (- 31))"
  by (simp_all add: eval_rules del: eval_dels cong: let_weak_cong prod.case_cong_weak)

lemma rate_quotients:
  "fdiv (Finite 4982833152000000 (- 25)) (Finite 5315022028800000 (- 31))
   = Inr (Finite 8444249301319680 (- 47))"
  "fdiv (Finite 5211213004800000 (- 21)) (Finite 5315022028800000 (- 31))
   = Inr (Finite 8831277394296832 (- 43))"
  "fdiv (Finite 5221593907200000 (- 21)) (Finite 5315022028800000 (- 31))
   = Inr (Finite 8848869580341248 (- 43))"
  by (simp_all add: eval_rules del: eval_dels cong: let_weak_cong prod.case_cong_weak)

lemma rate_values:
  "fval (Finite 8444249301319680 (- 47)) = 60"
  "fval (Finite 8796093022208000 (- 43)) = 1000"
  "fval (Finite 8831277394296832 (- 43)) = 1004"
  "fval (Finite 8848869580341248 (- 43)) = 1006"
  by (simp_all add: fval_def power_int_minus)

lemma rate_in_range:
  "(2::rat) powi (- 1000) \<le> 60" "(60::rat) \<le> 2 powi 1000"
  "(2::rat) powi (- 1000) \<le> 1000" "(1000::rat) \<le> 2 powi 1000"
proof -
  have lo: "(2::rat) powi (- 1000) \<le> 2 powi 0" by (rule power_int_increasing) simp_all
  have hi: "(2::rat) powi 10 \<le> 2 powi 1000" by (rule power_int_increasing) simp_all
  from lo show "(2::rat) powi (- 1000) \<le> 60" by (rule order_trans) simp
  from lo show "(2::rat) powi (- 1000) \<le> 1000" by (rule order_trans) simp
  from hi show "(60::rat) \<le> 2 powi 1000" by (rule order_trans[rotated]) simp
  from hi show "(1000::rat) \<le> 2 powi 1000" by (rule order_trans[rotated]) simp
qed

section \<open>The line-count lookup\<close>

text \<open>
  C10. The two override lists \<open>ln4\<close> and \<open>ln7\<close> share no identifier, and for every
  mode identifier \<open>get_ln\<close> returns 4 exactly when the identifier is in \<open>ln4\<close>, 7 exactly
  when it is in \<open>ln7\<close> and 1 exactly when it is in neither; the value is always between
  1 and 7.
\<close>

theorem get_ln_total:
  "set ln4 \<inter> set ln7 = {}
   \<and> (get_ln i = 4) = (i \<in> set ln4)
   \<and> (get_ln i = 7) = (i \<in> set ln7)
   \<and> (get_ln i = 1) = (i \<notin> set ln4 \<and> i \<notin> set ln7)
   \<and> get_ln i \<in> {1, 4, 7}
   \<and> 1 \<le> get_ln i \<and> get_ln i \<le> 7"
proof -
  have disj: "set ln4 \<inter> set ln7 = {}"
    by (simp add: ln4_def ln7_def)
  then have excl: "i \<in> set ln4 \<Longrightarrow> i \<notin> set ln7"
    by blast
  show ?thesis
    using disj excl by (auto simp: get_ln_def)
qed

section \<open>The example entry\<close>

text \<open>
  C1. The document that holds the one entry of mode 16 (name \<^verbatim>\<open>1920x1080\<close>, rate 60 Hz,
  clock 148500 kHz, horizontal 1920, 2008, 2052, 2200, vertical 1080, 1084, 1089, 1125,
  both polarity flags positive) inside the first array yields exactly one record, with
  hfront = 88, hsync = 44, hback = 148, vfront = 4, vsync = 5, vback = 36, hpol = 1,
  vpol = 1 and ln = 1.
\<close>

theorem example_round_trip:
  "\<exists>md. parse_c_file example_document arrays_to_include = Inr [md]
     \<and> vic md = 16 \<and> name md = ''1920x1080@60Hz'' \<and> pxl_clk_khz md = 148500
     \<and> hactive md = 1920 \<and> htotal md = 2200 \<and> vactive md = 1080 \<and> vtotal md = 1125
     \<and> hfront md = 88 \<and> hsync md = 44 \<and> hback md = 148
     \<and> vfront md = 4 \<and> vsync md = 5 \<and> vback md = 36
     \<and> hpol md = 1 \<and> vpol md = 1 \<and> ln md = 1"
  using example_document_parse by (simp add: mode_16_def)

section \<open>Totals of an accepted record\<close>

text \<open>
  C3. Every record that \<^verbatim>\<open>parse_c_file\<close> returns satisfies
  htotal = hactive + hfront + hsync + hback and vtotal = vactive + vfront + vsync + vback.
\<close>

theorem accepted_totals:
  assumes "parse_c_file doc arrs = Inr rs" and "md \<in> set rs"
  shows "htotal md = hactive md + hfront md + hsync md + hback md
         \<and> vtotal md = vactive md + vfront md + vsync md + vback md"
proof -
  let ?P = "\<lambda>md. htotal md = hactive md + hfront md + hsync md + hback md
         \<and> vtotal md = vactive md + vfront md + vsync md + vback md"
  have "list_all ?P rs"
  proof (rule parse_c_file_invariant[OF _ assms(1)])
    fix ms w md
    assume "parse_mode_string ms = Inr (w, md)"
    then obtain c m where "assemble c m = Inr md"
      using parse_mode_string_stages by blast
    then show "?P md" using assemble_totals by blast
  qed
  with assms(2) show ?thesis by (simp add: list_all_iff)
qed

theorem accepted_totals_witness:
  "parse_c_file example_document arrays_to_include = Inr [mode_16] \<and> mode_16 \<in> set [mode_16]
   \<and> htotal mode_16 = hactive mode_16 + hfront mode_16 + hsync mode_16 + hback mode_16
   \<and> vtotal mode_16 = vactive mode_16 + vfront mode_16 + vsync mode_16 + vback mode_16"
  using accepted_totals[OF example_document_parse, of mode_16] example_document_parse by simp

section \<open>The polarity flags\<close>

text \<open>
  C8. An entry is accepted only with exactly one of the flags NHSYNC and PHSYNC and exactly
  one of the flags NVSYNC and PVSYNC: whenever the three parts of the entry decode and one
  of the two pairs is missing from the flags, or present twice, \<^verbatim>\<open>parse_mode_string\<close> raises
  the assertion error; no polarity is defaulted.
\<close>

theorem polarity_flags_required:
  assumes "decode s = Inr (c, m, a)"
    and "\<not> (((''DRM_MODE_FLAG_NHSYNC'' \<in> set (mac_flags m)) \<noteq> (''DRM_MODE_FLAG_PHSYNC'' \<in> set (mac_flags m)))
          \<and> ((''DRM_MODE_FLAG_NVSYNC'' \<in> set (mac_flags m)) \<noteq> (''DRM_MODE_FLAG_PVSYNC'' \<in> set (mac_flags m))))"
  shows "parse_mode_string s = Inl AssertionError"
proof -
  have h: "(card ({''DRM_MODE_FLAG_NHSYNC'', ''DRM_MODE_FLAG_PHSYNC''} \<inter> set (mac_flags m)) = 1)
           = ((''DRM_MODE_FLAG_NHSYNC'' \<in> set (mac_flags m)) \<noteq> (''DRM_MODE_FLAG_PHSYNC'' \<in> set (mac_flags m)))"
    by (rule card_two_inter) simp
  have v: "(card ({''DRM_MODE_FLAG_NVSYNC'', ''DRM_MODE_FLAG_PVSYNC''} \<inter> set (mac_flags m)) = 1)
           = ((''DRM_MODE_FLAG_NVSYNC'' \<in> set (mac_flags m)) \<noteq> (''DRM_MODE_FLAG_PVSYNC'' \<in> set (mac_flags m)))"
    by (rule card_two_inter) simp
  from assms(2) have "\<not> (card ({''DRM_MODE_FLAG_NHSYNC'', ''DRM_MODE_FLAG_PHSYNC''} \<inter> set (mac_flags m)) = 1
            \<and> card ({''DRM_MODE_FLAG_NVSYNC'', ''DRM_MODE_FLAG_PVSYNC''} \<inter> set (mac_flags m)) = 1)"
    unfolding h v by blast
  then have "check_consistency c m a = Inl AssertionError"
    by (rule check_consistency_polarity)
  with assms(1) show ?thesis
    by (rule parse_mode_string_check_error)
qed

theorem polarity_flags_required_witness:
  "decode entry_bad_flags = Inr (comment_16, macro_bad_flags, (16, 9))
   \<and> ''DRM_MODE_FLAG_NVSYNC'' \<notin> set (mac_flags macro_bad_flags)
   \<and> ''DRM_MODE_FLAG_PVSYNC'' \<notin> set (mac_flags macro_bad_flags)
   \<and> parse_mode_string entry_bad_flags = Inl AssertionError"
proof -
  have flags: "''DRM_MODE_FLAG_NVSYNC'' \<notin> set (mac_flags macro_bad_flags)"
    "''DRM_MODE_FLAG_PVSYNC'' \<notin> set (mac_flags macro_bad_flags)"
    by (simp_all add: macro_bad_flags_def macro_16_def)
  then have "parse_mode_string entry_bad_flags = Inl AssertionError"
    by (intro polarity_flags_required[OF decode_bad_flags]) simp
  with flags decode_bad_flags show ?thesis by simp
qed

section \<open>The interlace flag\<close>

text \<open>
  C6, as amended. The check runs in one direction: when the interlace flag of the macro is
  set, the name of the macro and the comment must both encode interlace, and the entry
  fails otherwise. Nothing is required of an entry whose flag is not set.
\<close>

theorem interlace_flag_checked:
  assumes "decode s = Inr (c, m, a)"
    and "mac_interlaced m"
    and "\<not> (mac_name_interlaced m \<and> cmnt_interlaced c)"
  shows "parse_mode_string s = Inl AssertionError"
  using assms(1) check_consistency_interlace[OF assms(2,3)]
  by (rule parse_mode_string_check_error)

theorem interlace_flag_checked_witness:
  "decode entry_bad_flags = Inr (comment_16, macro_bad_flags, (16, 9))
   \<and> mac_interlaced macro_bad_flags
   \<and> \<not> mac_name_interlaced macro_bad_flags
   \<and> parse_mode_string entry_bad_flags = Inl AssertionError"
proof -
  have m: "mac_interlaced macro_bad_flags" "\<not> mac_name_interlaced macro_bad_flags"
    by (simp_all add: macro_bad_flags_def macro_16_def)
  then have "parse_mode_string entry_bad_flags = Inl AssertionError"
    by (intro interlace_flag_checked[OF decode_bad_flags]) simp_all
  with m decode_bad_flags show ?thesis by simp
qed

text \<open>
  The converse fails: the comment and the name of this entry encode interlace, its flags do
  not, and it is accepted.
\<close>

theorem interlace_converse_counterexample:
  "decode entry_unflagged_interlace = Inr (comment_5i, macro_5i, (16, 9))
   \<and> cmnt_interlaced comment_5i \<and> mac_name_interlaced macro_5i \<and> \<not> mac_interlaced macro_5i
   \<and> parse_mode_string entry_unflagged_interlace = Inr (False, mode_5i)"
  using decode_unflagged_interlace parse_unflagged_interlace
  by (simp add: comment_5i_def macro_5i_def comment_16_def macro_16_def)

section \<open>The derived values\<close>

text \<open>
  C5, as amended. The derived values of an accepted entry are the differences
  hblank = h-total - h-display, hfront = h-sync-start - h-display,
  hsync = h-sync-end - h-sync-start and hback = h-total - h-sync-end of the macro parameters,
  and the same vertically. Their sign is not checked.
\<close>

theorem derived_values_are_differences:
  assumes "parse_mode_string s = Inr (w, md)"
  shows "\<exists>c m a hd hs he ht vd vs ve vt.
           decode s = Inr (c, m, a)
         \<and> py_int (mac_hdisplay m) = Inr hd \<and> py_int (mac_hsync_start m) = Inr hs
         \<and> py_int (mac_hsync_end m) = Inr he \<and> py_int (mac_htotal m) = Inr ht
         \<and> py_int (mac_vdisplay m) = Inr vd \<and> py_int (mac_vsync_start m) = Inr vs
         \<and> py_int (mac_vsync_end m) = Inr ve \<and> py_int (mac_vtotal m) = Inr vt
         \<and> hblank md = ht - hd \<and> hfront md = hs - hd \<and> hsync md = he - hs \<and> hback md = ht - he
         \<and> vblank md = vt - vd \<and> vfront md = vs - vd \<and> vsync md = ve - vs \<and> vback md = vt - ve"
proof -
  from parse_mode_string_stages[OF assms] obtain c m a where
    d: "decode s = Inr (c, m, a)" and asm: "assemble c m = Inr md"
    by blast
  from asm d show ?thesis
    by (auto simp: assemble_def bind_err_Inr_iff)
qed

theorem derived_values_are_differences_witness:
  "parse_mode_string entry_negative_porch = Inr (False, mode_negative_porch)
   \<and> (\<exists>c m a hd hs he ht vd vs ve vt.
           decode entry_negative_porch = Inr (c, m, a)
         \<and> py_int (mac_hdisplay m) = Inr hd \<and> py_int (mac_hsync_start m) = Inr hs
         \<and> py_int (mac_hsync_end m) = Inr he \<and> py_int (mac_htotal m) = Inr ht
         \<and> py_int (mac_vdisplay m) = Inr vd \<and> py_int (mac_vsync_start m) = Inr vs
         \<and> py_int (mac_vsync_end m) = Inr ve \<and> py_int (mac_vtotal m) = Inr vt
         \<and> hblank mode_negative_porch = ht - hd \<and> hfront mode_negative_porch = hs - hd
         \<and> hsync mode_negative_porch = he - hs \<and> hback mode_negative_porch = ht - he
         \<and> vblank mode_negative_porch = vt - vd \<and> vfront mode_negative_porch = vs - vd
         \<and> vsync mode_negative_porch = ve - vs \<and> vback mode_negative_porch = vt - ve)"
  using derived_values_are_differences[OF parse_negative_porch] parse_negative_porch by simp

text \<open>
  An entry with a negative front porch is accepted, with \<open>hfront = - 20\<close>; no error is
  raised.
\<close>

theorem negative_porch_counterexample:
  "parse_mode_string entry_negative_porch = Inr (False, mode_negative_porch)
   \<and> hfront mode_negative_porch = - 20 \<and> hfront mode_negative_porch < 0"
  using parse_negative_porch by (simp add: mode_negative_porch_def mode_16_def)

section \<open>The parameter list\<close>


section \<open>The end of the input\<close>

text \<open>
  C7, as amended. When the input ends while a target array is open and a partial entry
  block is pending (a line that opens a comment, followed by any lines that neither end an
  entry nor close or declare an array), no error is raised for it: \<^verbatim>\<open>parse_c_file\<close> returns the
  records accepted before the partial block.
\<close>

theorem truncated_input_returns_records:
  assumes "scan_lines arrs initial_state ls = Inr st"
    and "current_array st = Some arr" and "arr \<noteq> []"
    and "startswith (strip l) ''/*''" and "\<not> endswith (strip l) ''},''"
    and "\<forall>k\<in>set ks. \<not> startswith (strip k) ''};''
           \<and> \<not> startswith (strip k) ''static const struct drm_display_mode''
           \<and> \<not> endswith (strip k) ''},''"
    and "\<forall>x\<in>set (ls @ l # ks). CHR 0x0A \<notin> set x"
  shows "parse_c_file (join_lines (ls @ l # ks)) arrs = Inr (video_modes st)"
proof -
  from scan_pending_line[of st arr l arrs] assms(2-5) comment_line_plain[OF assms(4)]
  obtain st1 where
    st1: "scan_line arrs st l = Inr st1" "current_array st1 = Some arr"
      "\<exists>ms. mode_string st1 = Str ms" "video_modes st1 = video_modes st"
    by auto
  from scan_pending_lines[OF st1(2) assms(3) st1(3) assms(6)] obtain st' where
    st': "scan_lines arrs st1 ks = Inr st'" "video_modes st' = video_modes st1"
    by auto
  have "scan_lines arrs initial_state (ls @ l # ks) = Inr st'"
    by (simp add: scan_lines_append assms(1) st1(1) st'(1) bind_err_Inr)
  moreover have "split [CHR 0x0A] (join_lines (ls @ l # ks)) = ls @ l # ks"
    using assms(7) by (intro split_join_lines) auto
  ultimately show ?thesis
    by (simp add: parse_c_file_def bind_err_Inr st'(2) st1(4))
qed

theorem truncated_input_returns_records_witness:
  "scan_lines arrays_to_include initial_state (array_open # entry_16) = Inr state_after_16
   \<and> current_array state_after_16 = Some ''edid_cea_modes_1''
   \<and> startswith (strip ''    /* 17 - 720x576@50Hz'') ''/*''
   \<and> parse_c_file (join_lines ((array_open # entry_16) @ ''    /* 17 - 720x576@50Hz'' # []))
        arrays_to_include = Inr (video_modes state_after_16)"
proof -
  have a: "current_array state_after_16 = Some ''edid_cea_modes_1''"
    by (simp add: state_after_16_def)
  have b: "startswith (strip ''    /* 17 - 720x576@50Hz'') ''/*''"
    "\<not> endswith (strip ''    /* 17 - 720x576@50Hz'') ''},''"
    by (simp_all add: eval_rules del: eval_dels)
  have c: "\<forall>x\<in>set ((array_open # entry_16) @ ''    /* 17 - 720x576@50Hz'' # []). CHR 0x0A \<notin> set x"
    by (simp add: array_open_def entry_16_def)
  have "parse_c_file (join_lines ((array_open # entry_16) @ ''    /* 17 - 720x576@50Hz'' # []))
        arrays_to_include = Inr (video_modes state_after_16)"
    by (rule truncated_input_returns_records[OF scan_example_open a _ b _ c]) simp_all
  with scan_example_open a b show ?thesis by simp
qed

text \<open>
  The document that ends inside the comment of a second entry is not rejected: the record
  of the first entry is returned.
\<close>

theorem truncated_input_counterexample:
  "parse_c_file truncated_document arrays_to_include = Inr [mode_16]
   \<and> \<not> isl (parse_c_file truncated_document arrays_to_include)"
  using truncated_document_parse by simp

section \<open>The refresh rate\<close>

text \<open>
  C2. For an entry that decodes and passes the consistency checks, the computed rate is
  \<^verbatim>\<open>float(clock * 1000) / float(vtotal * htotal)\<close>, times two when the interlace flag is set.
  When it equals the rate stated in the comment the entry passes without a message; when
  it differs and \<^verbatim>\<open>abs(stated - computed) < 0.005 * stated\<close> the entry passes with the warning;
  otherwise it fails with the assertion error. In terms of the values of the two floats,
  for a stated rate between \<open>2 ^ -1000\<close> and \<open>2 ^ 1000\<close>: equal values pass without a
  message; a difference between \<open>2 ^ -30\<close> times and 0.499% of the stated rate passes with
  the warning, in particular a difference of exactly 0.4%; a difference between 0.501% and
  \<open>2 ^ 20\<close> times the stated rate fails, in particular a difference of exactly 0.6%. An
  entry that passes goes on to the dictionary of lines 145 to 166.
\<close>

theorem refresh_rate_check:
  assumes "decode s = Inr (c, m, asp)"
    and "check_consistency c m asp = Inr ()"
    and "py_int (mac_clock m) = Inr clock"
    and "py_int (mac_vtotal m) = Inr vt"
    and "py_int (mac_htotal m) = Inr ht"
    and "float_of_int (clock * 1000) = Inr num"
    and "float_of_int (vt * ht) = Inr den"
    and "fdiv num den = Inr q"
    and "fps = (if mac_interlaced m then fmul q float_2 else q)"
    and "py_float (cmnt_freq c) = Inr freq"
  shows "fps_calc m = Inr fps
       \<and> (\<not> fne fps freq
            \<longrightarrow> parse_mode_string s = bind_err (assemble c m) (\<lambda>mode. Inr (False, mode)))
       \<and> (fne fps freq \<and> flt (fabs (fsub freq fps)) (fmul float_0_005 freq)
            \<longrightarrow> parse_mode_string s = bind_err (assemble c m) (\<lambda>mode. Inr (True, mode)))
       \<and> (fne fps freq \<and> \<not> flt (fabs (fsub freq fps)) (fmul float_0_005 freq)
            \<longrightarrow> parse_mode_string s = Inl AssertionError)
       \<and> (\<forall>k e k' e'. fps = Finite k e \<and> freq = Finite k' e'
              \<and> 2 powi (- 1000) \<le> fval freq \<and> fval freq \<le> 2 powi 1000 \<longrightarrow>
            (fval fps = fval freq
              \<longrightarrow> parse_mode_string s = bind_err (assemble c m) (\<lambda>mode. Inr (False, mode)))
          \<and> (2 powi (- 30) * fval freq \<le> \<bar>fval fps - fval freq\<bar>
              \<and> \<bar>fval fps - fval freq\<bar> \<le> 499 / 100000 * fval freq
              \<longrightarrow> parse_mode_string s = bind_err (assemble c m) (\<lambda>mode. Inr (True, mode)))
          \<and> (\<bar>fval fps - fval freq\<bar> = 4 / 1000 * fval freq
              \<longrightarrow> parse_mode_string s = bind_err (assemble c m) (\<lambda>mode. Inr (True, mode)))
          \<and> (501 / 100000 * fval freq \<le> \<bar>fval fps - fval freq\<bar>
              \<and> \<bar>fval fps - fval freq\<bar> \<le> 2 powi 20 * fval freq
              \<longrightarrow> parse_mode_string s = Inl AssertionError)
          \<and> (\<bar>fval fps - fval freq\<bar> = 6 / 1000 * fval freq
              \<longrightarrow> parse_mode_string s = Inl AssertionError))"
proof -
  have calc: "fps_calc m = Inr fps"
    using assms(3-9) by (simp add: fps_calc_def bind_err_Inr)
  then have chk: "check_fps c m = fps_verdict fps freq"
    using assms(10) by (simp add: check_fps_def bind_err_Inr)
  have pm: "parse_mode_string s
            = bind_err (fps_verdict fps freq) (\<lambda>warned.
              bind_err (assemble c m) (\<lambda>mode. Inr (warned, mode)))"
    using assms(1,2) by (simp add: parse_mode_string_def bind_err_Inr chk)
  have silent: "parse_mode_string s = bind_err (assemble c m) (\<lambda>mode. Inr (False, mode))"
    if "fps_verdict fps freq = Inr False"
    unfolding pm that by (rule bind_err_Inr)
  have warning: "parse_mode_string s = bind_err (assemble c m) (\<lambda>mode. Inr (True, mode))"
    if "fps_verdict fps freq = Inr True"
    unfolding pm that by (rule bind_err_Inr)
  have fatal: "parse_mode_string s = Inl AssertionError"
    if "fps_verdict fps freq = Inl AssertionError"
    unfolding pm that by (rule bind_err_Inl)
  have "\<not> fne fps freq
        \<longrightarrow> parse_mode_string s = bind_err (assemble c m) (\<lambda>mode. Inr (False, mode))"
    by (auto intro!: silent simp: fps_verdict_def)
  moreover have "fne fps freq \<and> flt (fabs (fsub freq fps)) (fmul float_0_005 freq)
        \<longrightarrow> parse_mode_string s = bind_err (assemble c m) (\<lambda>mode. Inr (True, mode))"
    by (auto intro!: warning simp: fps_verdict_def)
  moreover have "fne fps freq \<and> \<not> flt (fabs (fsub freq fps)) (fmul float_0_005 freq)
        \<longrightarrow> parse_mode_string s = Inl AssertionError"
    by (auto intro!: fatal simp: fps_verdict_def)
  moreover have "\<forall>k e k' e'. fps = Finite k e \<and> freq = Finite k' e'
              \<and> 2 powi (- 1000) \<le> fval freq \<and> fval freq \<le> 2 powi 1000 \<longrightarrow>
            (fval fps = fval freq
              \<longrightarrow> parse_mode_string s = bind_err (assemble c m) (\<lambda>mode. Inr (False, mode)))
          \<and> (2 powi (- 30) * fval freq \<le> \<bar>fval fps - fval freq\<bar>
              \<and> \<bar>fval fps - fval freq\<bar> \<le> 499 / 100000 * fval freq
              \<longrightarrow> parse_mode_string s = bind_err (assemble c m) (\<lambda>mode. Inr (True, mode)))
          \<and> (\<bar>fval fps - fval freq\<bar> = 4 / 1000 * fval freq
              \<longrightarrow> parse_mode_string s = bind_err (assemble c m) (\<lambda>mode. Inr (True, mode)))
          \<and> (501 / 100000 * fval freq \<le> \<bar>fval fps - fval freq\<bar>
              \<and> \<bar>fval fps - fval freq\<bar> \<le> 2 powi 20 * fval freq
              \<longrightarrow> parse_mode_string s = Inl AssertionError)
          \<and> (\<bar>fval fps - fval freq\<bar> = 6 / 1000 * fval freq
              \<longrightarrow> parse_mode_string s = Inl AssertionError)"
    using silent warning fatal
      verdict_equal verdict_warning verdict_0_4_percent verdict_fatal verdict_0_6_percent
    by blast
  ultimately show ?thesis using calc by blast
qed

theorem refresh_rate_check_witness:
  "decode entry_rate_60 = Inr (comment_16, macro_16, (16, 9))
   \<and> fps_calc macro_16 = Inr (Finite 8444249301319680 (- 47))
   \<and> py_float (cmnt_freq comment_16) = Inr (Finite 8444249301319680 (- 47))
   \<and> parse_mode_string entry_rate_60 = Inr (False, mode_16)
   \<and> decode entry_rate_1004 = Inr (comment_1000, macro_1004, (16, 9))
   \<and> py_float (cmnt_freq comment_1000) = Inr (Finite 8796093022208000 (- 43))
   \<and> fval (Finite 8796093022208000 (- 43)) = 1000
   \<and> fps_calc macro_1004 = Inr (Finite 8831277394296832 (- 43))
   \<and> fval (Finite 8831277394296832 (- 43)) = 1004
   \<and> parse_mode_string entry_rate_1004 = Inr (True, mode_1004)
   \<and> decode entry_rate_1006 = Inr (comment_1000, macro_1006, (16, 9))
   \<and> fps_calc macro_1006 = Inr (Finite 8848869580341248 (- 43))
   \<and> fval (Finite 8848869580341248 (- 43)) = 1006
   \<and> parse_mode_string entry_rate_1006 = Inl AssertionError"
proof -
  have A: "fps_calc macro_16 = Inr (Finite 8444249301319680 (- 47))
           \<and> parse_mode_string entry_rate_60 = Inr (False, mode_16)"
    using refresh_rate_check [of entry_rate_60 comment_16 macro_16 "(16, 9)" 148500 1125 2200
        "Finite 4982833152000000 (- 25)" "Finite 5315022028800000 (- 31)"
        "Finite 8444249301319680 (- 47)" "Finite 8444249301319680 (- 47)"
        "Finite 8444249301319680 (- 47)"]
      rate_decoded rate_consistent rate_assembled
      rate_16_fields rate_floats rate_quotients rate_values rate_in_range
    by (simp add: bind_err_Inr)
  have B: "fps_calc macro_1004 = Inr (Finite 8831277394296832 (- 43))
           \<and> parse_mode_string entry_rate_1004 = Inr (True, mode_1004)"
    using refresh_rate_check [of entry_rate_1004 comment_1000 macro_1004 "(16, 9)" 2484900 1125 2200
        "Finite 5211213004800000 (- 21)" "Finite 5315022028800000 (- 31)"
        "Finite 8831277394296832 (- 43)" "Finite 8831277394296832 (- 43)"
        "Finite 8796093022208000 (- 43)"]
      rate_decoded rate_consistent rate_assembled
      rate_1004_fields rate_1000_stated rate_floats rate_quotients rate_values rate_in_range
    by (simp add: bind_err_Inr)
  have C: "fps_calc macro_1006 = Inr (Finite 8848869580341248 (- 43))
           \<and> parse_mode_string entry_rate_1006 = Inl AssertionError"
    using refresh_rate_check [of entry_rate_1006 comment_1000 macro_1006 "(16, 9)" 2489850 1125 2200
        "Finite 5221593907200000 (- 21)" "Finite 5315022028800000 (- 31)"
        "Finite 8848869580341248 (- 43)" "Finite 8848869580341248 (- 43)"
        "Finite 8796093022208000 (- 43)"]
      rate_decoded rate_consistent
      rate_1006_fields rate_1000_stated rate_floats rate_quotients rate_values rate_in_range
    by (simp add: bind_err_Inr)
  from A B C rate_decoded rate_16_fields(5) rate_1000_stated rate_values show ?thesis
    by simp
qed

section \<open>The mode identifiers\<close>

text \<open>
  C4, as amended. The records are not compared with one another. When an entry block (a
  line that opens a comment, lines that continue it, and a line that ends the entry)
  follows, inside an open target array, a part of the document that has been scanned
  without error, and \<^verbatim>\<open>parse_mode_string\<close> accepts the block, then its record is appended to the
  records accepted so far, whatever their identifiers are: when the identifier of the block
  is already among them, the accepted records hold it twice.
\<close>

theorem entry_appended_unchecked:
  assumes "scan_lines arrs initial_state ls = Inr st"
    and "current_array st = Some arr" and "arr \<noteq> []"
    and "startswith (strip l) ''/*''" and "\<not> endswith (strip l) ''},''"
    and "\<forall>k\<in>set ks. \<not> startswith (strip k) ''};''
           \<and> \<not> startswith (strip k) ''static const struct drm_display_mode''
           \<and> \<not> startswith (strip k) ''/*''
           \<and> \<not> endswith (strip k) ''},''"
    and "\<not> startswith (strip e) ''};''"
    and "\<not> startswith (strip e) ''static const struct drm_display_mode''"
    and "\<not> startswith (strip e) ''/*''"
    and "endswith (strip e) ''},''"
    and "parse_mode_string (concat (map strip (l # ks @ [e]))) = Inr (w, md)"
    and "\<forall>x\<in>set (ls @ l # ks @ [e]). CHR 0x0A \<notin> set x"
  shows "parse_c_file (join_lines (ls @ l # ks @ [e])) arrs = Inr (video_modes st @ [md])
       \<and> (vic md \<in> vic ` set (video_modes st)
            \<longrightarrow> \<not> distinct (map vic (video_modes st @ [md])))"
proof -
  let ?ms = "strip l @ concat (map strip ks)"
  let ?st1 = "st\<lparr>mode_string := Str (strip l)\<rparr>"
  let ?st2 = "st\<lparr>mode_string := Str ?ms\<rparr>"
  let ?st3 = "st\<lparr>mode_string := Str (?ms @ strip e), video_modes := video_modes st @ [md]\<rparr>"
  have 1: "scan_line arrs st l = Inr ?st1"
    by (rule scan_open_line[OF assms(2-5)])
  have 2: "scan_lines arrs ?st1 ks = Inr ?st2"
    using scan_continuation_lines[of ?st1 arr "strip l" ks arrs] assms(2,3,6) by simp
  have p: "parse_mode_string (?ms @ strip e) = Inr (w, md)"
    using assms(11) by simp
  have 3: "scan_line arrs ?st2 e = Inr ?st3"
    using scan_closing_line[of ?st2 arr ?ms e w md arrs] assms(2,3,7-10) p by simp
  have "scan_lines arrs initial_state (ls @ l # ks @ [e]) = Inr ?st3"
    by (simp only: scan_lines_append scan_lines.simps assms(1) 1 2 3 bind_err_Inr)
  moreover have "split [CHR 0x0A] (join_lines (ls @ l # ks @ [e])) = ls @ l # ks @ [e]"
    using assms(12) by (intro split_join_lines) auto
  ultimately have "parse_c_file (join_lines (ls @ l # ks @ [e])) arrs = Inr (video_modes st @ [md])"
    by (simp add: parse_c_file_def bind_err_Inr)
  then show ?thesis by auto
qed

theorem entry_appended_unchecked_witness:
  "scan_lines arrays_to_include initial_state (array_open # entry_16) = Inr state_after_16
   \<and> parse_mode_string (concat (map strip entry_16)) = Inr (False, mode_16)
   \<and> vic mode_16 \<in> vic ` set (video_modes state_after_16)
   \<and> parse_c_file (join_lines ((array_open # entry_16) @ entry_16)) arrays_to_include
       = Inr [mode_16, mode_16]
   \<and> \<not> distinct (map vic [mode_16, mode_16])"
proof -
  have a: "current_array state_after_16 = Some ''edid_cea_modes_1''"
    by (simp add: state_after_16_def)
  have p: "parse_mode_string
             (concat (map strip (hd entry_16 # butlast (tl entry_16) @ [last entry_16])))
           = Inr (False, mode_16)"
    using entry_16_parse entry_16_lines by simp
  have c: "\<forall>x\<in>set ((array_open # entry_16) @ hd entry_16 # butlast (tl entry_16) @ [last entry_16]).
             CHR 0x0A \<notin> set x"
    by (simp add: array_open_def entry_16_def)
  have v: "video_modes state_after_16 = [mode_16]"
    by (simp add: state_after_16_def)
  from entry_appended_unchecked[OF scan_example_open a _ entry_16_shape p c]
  have "parse_c_file (join_lines ((array_open # entry_16) @ entry_16)) arrays_to_include
       = Inr [mode_16, mode_16]"
    using entry_16_lines by (simp add: v)
  with scan_example_open entry_16_parse v show ?thesis by simp
qed

text \<open>
  The document that holds the entry of mode 16 twice is accepted, and both of its records
  carry the identifier 16.
\<close>

theorem duplicate_identifier_counterexample:
  "parse_c_file duplicate_document arrays_to_include = Inr [mode_16, mode_16]
   \<and> \<not> distinct (map vic [mode_16, mode_16])"
  using duplicate_document_parse by simp

end
